theory Spec2Isabelle
  imports Main
begin

section \<open>Data model\<close>

text \<open>
  The script \<^verbatim>\<open>streamlit-data-app/app.py\<close> browses catalogs, schemas and tables of a
  SQL warehouse. A query result is a pandas \<^verbatim>\<open>DataFrame\<close>: named columns, each holding
  one cell per row. It is kept as an association list from column name to cells, in
  column order.
\<close>

type_synonym dataframe = "(string \<times> string list) list"

definition column_names :: "dataframe \<Rightarrow> string list" where
  "column_names df = map fst df"

definition nrows :: "dataframe \<Rightarrow> nat" where
  "nrows df = (case df of [] \<Rightarrow> 0 | (_, cells) # _ \<Rightarrow> length cells)"

text \<open>
  Failures of the warehouse client (configuration and authentication, the network
  connection, the execution of a statement) and the exceptions the script itself can
  raise.
\<close>

datatype wh_error = AuthError | ConnectionError | QueryError

datatype error =
    AssertionError string
  | NameError string
  | KeyError string
  | WarehouseError wh_error

text \<open>
  The warehouse is outside the repository. What the client library does at each stage of
  \<^verbatim>\<open>sql_query\<close> is a parameter: \<^verbatim>\<open>Config()\<close> yields the host or fails,
  \<^verbatim>\<open>sql.connect\<close> and \<^verbatim>\<open>connection.cursor()\<close> succeed or fail, and
  \<^verbatim>\<open>cursor.execute(query)\<close> followed by \<^verbatim>\<open>fetchall_arrow().to_pandas()\<close> yields a
  frame or fails. The behaviour may change over time (seconds).
\<close>

record warehouse =
  config :: "wh_error + string"
  connect :: "string \<Rightarrow> string \<Rightarrow> wh_error option"
  cursor :: "wh_error option"
  execute :: "string \<Rightarrow> wh_error + dataframe"

type_synonym backend = "nat \<Rightarrow> warehouse"

type_synonym environ = "string \<rightharpoonup> string"

datatype event =
    ConnOpen string string
  | CursorOpen
  | Execute string
  | CursorClose
  | ConnClose

text \<open>The key of a memoised call: the function and its arguments.\<close>

datatype cache_key =
    KCatalogs
  | KSchemas string
  | KTables string string
  | KTableData string string string int

text \<open>What a render pass puts on the page (the emoji of the titles are left out).\<close>

datatype element =
    Markdown string
  | Title string
  | Caption string
  | SidebarHeader string
  | SidebarMarkdown string
  | Selectbox string "string list" "string option"
  | Checkbox string bool
  | Divider
  | Subheader string
  | Dataframe dataframe
  | Columns nat
  | Col nat element

text \<open>
  The state a call runs in: the clock, the trace of what the warehouse client did, the
  process-wide cache of \<^verbatim>\<open>st.cache_data\<close> (value and expiry time per key) and the page
  of the current render pass.
\<close>

record world =
  now :: nat
  log :: "event list"
  cache :: "cache_key \<rightharpoonup> (dataframe \<times> nat)"
  screen :: "element list"

text \<open>The widget inputs of the user's session, read by one render pass.\<close>

record ui =
  catalog_choice :: nat
  schema_choice :: nat
  table_choice :: nat
  show_schemas :: bool
  show_tables :: bool

section \<open>Python values\<close>

text \<open>A value that is a \<^verbatim>\<open>str\<close> or \<^verbatim>\<open>None\<close>: its truth value and its \<^verbatim>\<open>str()\<close>.\<close>

definition truthy :: "string option \<Rightarrow> bool" where
  "truthy v = (case v of None \<Rightarrow> False | Some s \<Rightarrow> s \<noteq> [])"

definition fmt :: "string option \<Rightarrow> string" where
  "fmt v = (case v of None \<Rightarrow> ''None'' | Some s \<Rightarrow> s)"

definition digit_char :: "nat \<Rightarrow> char" where
  "digit_char d = ''0123456789'' ! (d mod 10)"

fun str_nat :: "nat \<Rightarrow> string" where
  "str_nat n = (if n < 10 then [digit_char n] else str_nat (n div 10) @ [digit_char n])"

declare str_nat.simps [simp del]

text \<open>\<^verbatim>\<open>str(limit)\<close> for a Python \<^verbatim>\<open>int\<close>, as the f-string formats it.\<close>

definition str_int :: "int \<Rightarrow> string" where
  "str_int i = (if i < 0 then CHR ''-'' # str_nat (nat (- i)) else str_nat (nat i))"

section \<open>Computations that change the world and may raise\<close>

type_synonym 'a script = "world \<Rightarrow> (error + 'a) \<times> world"

definition returns :: "'a \<Rightarrow> 'a script" where
  "returns x w = (Inr x, w)"

definition raises :: "error \<Rightarrow> 'a script" where
  "raises e w = (Inl e, w)"

definition and_then :: "'a script \<Rightarrow> ('a \<Rightarrow> 'b script) \<Rightarrow> 'b script" where
  "and_then m f w = (case m w of (Inl e, w') \<Rightarrow> (Inl e, w') | (Inr x, w') \<Rightarrow> f x w')"

definition emit :: "element \<Rightarrow> unit script" where
  "emit el w = (Inr (), w\<lparr>screen := screen w @ [el]\<rparr>)"

section \<open>The query executor\<close>

text \<open>
  \<^verbatim>\<open>
  def sql_query(query: str) -> pd.DataFrame:
      cfg = Config() # Pull environment variables for auth
      with sql.connect(
          server_hostname=cfg.host,
          http_path=f"/sql/1.0/warehouses/{os.getenv('DATABRICKS_WAREHOUSE_ID')}",
          credentials_provider=lambda: cfg.authenticate
      ) as connection:
          with connection.cursor() as cursor:
              cursor.execute(query)
              return cursor.fetchall_arrow().to_pandas()
  \<close>
  Leaving a \<^verbatim>\<open>with\<close> block closes its resource, on a return and on an exception alike.
\<close>

definition http_path :: "environ \<Rightarrow> string" where
  "http_path env = ''/sql/1.0/warehouses/'' @ fmt (env ''DATABRICKS_WAREHOUSE_ID'')"

definition sql_query :: "backend \<Rightarrow> environ \<Rightarrow> string \<Rightarrow> dataframe script" where
  "sql_query be env query w =
     (let wh = be (now w) in
      case config wh of
        Inl e \<Rightarrow> (Inl (WarehouseError e), w)
      | Inr host \<Rightarrow>
          (case connect wh host (http_path env) of
             Some e \<Rightarrow> (Inl (WarehouseError e), w)
           | None \<Rightarrow>
               (case cursor wh of
                  Some e \<Rightarrow>
                    (Inl (WarehouseError e),
                     w\<lparr>log := log w @ [ConnOpen host (http_path env), ConnClose]\<rparr>)
                | None \<Rightarrow>
                    (case execute wh query of
                       Inl e \<Rightarrow>
                         (Inl (WarehouseError e),
                          w\<lparr>log := log w @ [ConnOpen host (http_path env), CursorOpen,
                                             Execute query, CursorClose, ConnClose]\<rparr>)
                     | Inr df \<Rightarrow>
                         (Inr df,
                          w\<lparr>log := log w @ [ConnOpen host (http_path env), CursorOpen,
                                             Execute query, CursorClose, ConnClose]\<rparr>)))))"

section \<open>The cached accessors\<close>

text \<open>
  Modelled from the spec: the decorator \<^verbatim>\<open>@st.cache_data(ttl=60)\<close> belongs to the UI
  framework, which is not part of the repository. The spec describes it as a mapping
  from (function identity, argument tuple) to (result, expiry timestamp): an entry is
  created on first access per key, reused until expiry, then recomputed; there is no
  other invalidation. A call that raises stores nothing.
\<close>

definition cache_data :: "nat \<Rightarrow> cache_key \<Rightarrow> dataframe script \<Rightarrow> dataframe script" where
  "cache_data ttl key f w =
     (let compute =
        (case f w of
           (Inl e, w') \<Rightarrow> (Inl e, w')
         | (Inr v, w') \<Rightarrow> (Inr v, w'\<lparr>cache := (cache w')(key \<mapsto> (v, now w' + ttl))\<rparr>))
      in case cache w key of
           None \<Rightarrow> compute
         | Some (v, expiry) \<Rightarrow> if now w < expiry then (Inr v, w) else compute)"

text \<open>
  \<^verbatim>\<open>
  @st.cache_data(ttl=60)
  def get_catalogs():
      return sql_query("SHOW CATALOGS")

  @st.cache_data(ttl=60)
  def get_schemas(catalog: str):
      return sql_query(f"SHOW SCHEMAS IN {catalog}")

  @st.cache_data(ttl=60)
  def get_tables(catalog: str, schema: str):
      return sql_query(f"SHOW TABLES IN {catalog}.{schema}")

  @st.cache_data(ttl=60)
  def get_table_data(catalog: str, schema: str, table: str, limit: int = 10):
      return sql_query(f"SELECT * FROM {catalog}.{schema}.{table} LIMIT {limit}")
  \<close>
\<close>

definition get_catalogs :: "backend \<Rightarrow> environ \<Rightarrow> dataframe script" where
  "get_catalogs be env = cache_data 60 KCatalogs (sql_query be env ''SHOW CATALOGS'')"

definition get_schemas :: "backend \<Rightarrow> environ \<Rightarrow> string \<Rightarrow> dataframe script" where
  "get_schemas be env catalog =
     cache_data 60 (KSchemas catalog) (sql_query be env (''SHOW SCHEMAS IN '' @ catalog))"

definition get_tables :: "backend \<Rightarrow> environ \<Rightarrow> string \<Rightarrow> string \<Rightarrow> dataframe script" where
  "get_tables be env catalog schema =
     cache_data 60 (KTables catalog schema)
       (sql_query be env (''SHOW TABLES IN '' @ catalog @ ''.'' @ schema))"

definition get_table_data ::
    "backend \<Rightarrow> environ \<Rightarrow> string \<Rightarrow> string \<Rightarrow> string \<Rightarrow> int \<Rightarrow> dataframe script" where
  "get_table_data be env catalog schema table limit =
     cache_data 60 (KTableData catalog schema table limit)
       (sql_query be env
          (''SELECT * FROM '' @ catalog @ ''.'' @ schema @ ''.'' @ table @
           '' LIMIT '' @ str_int limit))"

text \<open>A call of one of the four accessors, named by its cache key.\<close>

fun run_call :: "backend \<Rightarrow> environ \<Rightarrow> cache_key \<Rightarrow> dataframe script" where
  "run_call be env KCatalogs = get_catalogs be env"
| "run_call be env (KSchemas c) = get_schemas be env c"
| "run_call be env (KTables c s) = get_tables be env c s"
| "run_call be env (KTableData c s t n) = get_table_data be env c s t n"

text \<open>
  The four statement templates as the spec lists them:
  \<^verbatim>\<open>SHOW CATALOGS\<close>, \<^verbatim>\<open>SHOW SCHEMAS IN <catalog>\<close>, \<^verbatim>\<open>SHOW TABLES IN <catalog>.<schema>\<close>,
  \<^verbatim>\<open>SELECT * FROM <catalog>.<schema>.<table> LIMIT <n>\<close>.
\<close>

fun spec_statement :: "cache_key \<Rightarrow> string" where
  "spec_statement KCatalogs = ''SHOW CATALOGS''"
| "spec_statement (KSchemas c) = concat [''SHOW SCHEMAS IN '', c]"
| "spec_statement (KTables c s) = concat [''SHOW TABLES IN '', c, ''.'', s]"
| "spec_statement (KTableData c s t n) =
     concat [''SELECT * FROM '', c, ''.'', s, ''.'', t, '' LIMIT '', str_int n]"

section \<open>The render pass\<close>

text \<open>
  The framework runs the script from the top on every interaction. Its widgets are
  outside the repository: \<^verbatim>\<open>st.sidebar.selectbox(label, options)\<close> shows the options and
  returns the selected one, \<^verbatim>\<open>None\<close> when there is none to select; the selection is the
  option at the position the user chose, the first option when that position is not in
  the list. \<^verbatim>\<open>st.sidebar.checkbox(label)\<close> returns the state of the box.
\<close>

definition selectbox :: "string \<Rightarrow> string list \<Rightarrow> nat \<Rightarrow> string option script" where
  "selectbox label options choice =
     (let value =
        (if options = [] then None
         else Some (options ! (if choice < length options then choice else 0)))
      in and_then (emit (Selectbox label options value)) (\<lambda>_. returns value))"

definition checkbox :: "string \<Rightarrow> bool \<Rightarrow> bool script" where
  "checkbox label ticked = and_then (emit (Checkbox label ticked)) (\<lambda>_. returns ticked)"

text \<open>\<^verbatim>\<open>df[name].tolist()\<close>: a \<^verbatim>\<open>KeyError\<close> when the frame has no such column.\<close>

definition getitem :: "dataframe \<Rightarrow> string \<Rightarrow> string list script" where
  "getitem df name =
     (case map_of df name of None \<Rightarrow> raises (KeyError name) | Some cells \<Rightarrow> returns cells)"

text \<open>
  The names the script binds inside an \<^verbatim>\<open>if\<close> only: each is unbound (\<open>None\<close>) until
  its assignment runs, and reading an unbound name raises \<^verbatim>\<open>NameError\<close>. The names
  bound on every path (\<^verbatim>\<open>catalogs\<close>, \<^verbatim>\<open>catalog_list\<close>, \<^verbatim>\<open>selected_catalog\<close>) are
  ordinary variables of the model.
\<close>

record scope =
  schemas :: "dataframe option"
  selected_schema :: "string option option"
  tables :: "dataframe option"
  selected_table :: "string option option"

definition unbound :: scope where
  "unbound = \<lparr>schemas = None, selected_schema = None, tables = None, selected_table = None\<rparr>"

definition lookup_name :: "string \<Rightarrow> 'a option \<Rightarrow> 'a script" where
  "lookup_name name v = (case v of None \<Rightarrow> raises (NameError name) | Some x \<Rightarrow> returns x)"

text \<open>\<^verbatim>\<open>if v:\<close> on a value that is a \<^verbatim>\<open>str\<close> or \<^verbatim>\<open>None\<close>, with the string at hand.\<close>

definition if_truthy :: "string option \<Rightarrow> (string \<Rightarrow> 'a) \<Rightarrow> 'a \<Rightarrow> 'a" where
  "if_truthy v yes no = (case v of None \<Rightarrow> no | Some s \<Rightarrow> if s \<noteq> [] then yes s else no)"

text \<open>
  \<^verbatim>\<open>
  assert os.getenv('DATABRICKS_WAREHOUSE_ID'), "DATABRICKS_WAREHOUSE_ID must be set in app.yaml."
  \<close>
\<close>

definition check_env :: "environ \<Rightarrow> unit script" where
  "check_env env =
     (if truthy (env ''DATABRICKS_WAREHOUSE_ID'') then returns ()
      else raises (AssertionError ''DATABRICKS_WAREHOUSE_ID must be set in app.yaml.''))"

text \<open>Page configuration, style sheet, title and sidebar header (lines 38 to 77).\<close>

definition header :: "unit script" where
  "header =
     and_then (emit (Markdown ''<style>'')) (\<lambda>_.
     and_then (emit (Title ''**Databricks Metadata Explorer**'')) (\<lambda>_.
     and_then (emit (Caption
        ''Browse catalogs, schemas, and tables interactively with Databricks SQL.'')) (\<lambda>_.
     and_then (emit (SidebarHeader ''Navigation Panel'')) (\<lambda>_.
     emit (SidebarMarkdown ''Use the selectors below to explore the metadata.'')))))"

text \<open>
  \<^verbatim>\<open>
  catalogs = get_catalogs()
  catalog_list = catalogs['catalog'].tolist()
  selected_catalog = st.sidebar.selectbox("Select a Catalog", catalog_list)
  \<close>
\<close>

definition step1 :: "backend \<Rightarrow> environ \<Rightarrow> ui \<Rightarrow> string option script" where
  "step1 be env u =
     and_then (get_catalogs be env) (\<lambda>catalogs.
     and_then (getitem catalogs ''catalog'') (\<lambda>catalog_list.
     selectbox ''Select a Catalog'' catalog_list (catalog_choice u)))"

text \<open>
  \<^verbatim>\<open>
  if selected_catalog:
      schemas = get_schemas(selected_catalog)
      schema_list = schemas['databaseName'].tolist()
      selected_schema = st.sidebar.selectbox("Select a Schema", schema_list)
  \<close>
\<close>

definition step2 ::
    "backend \<Rightarrow> environ \<Rightarrow> ui \<Rightarrow> string option \<Rightarrow> scope \<Rightarrow> scope script" where
  "step2 be env u selected_catalog sc =
     if_truthy selected_catalog
       (\<lambda>catalog.
          and_then (get_schemas be env catalog) (\<lambda>df.
          and_then (getitem df ''databaseName'') (\<lambda>schema_list.
          and_then (selectbox ''Select a Schema'' schema_list (schema_choice u)) (\<lambda>sel.
          returns (sc\<lparr>schemas := Some df, selected_schema := Some sel\<rparr>)))))
       (returns sc)"

text \<open>
  \<^verbatim>\<open>
  if selected_catalog and selected_schema:
      tables = get_tables(selected_catalog, selected_schema)
      table_list = tables['tableName'].tolist()
      selected_table = st.sidebar.selectbox("Select a Table", table_list)
  \<close>
  \<^verbatim>\<open>and\<close> reads its right operand only when the left one is true.
\<close>

definition step3 ::
    "backend \<Rightarrow> environ \<Rightarrow> ui \<Rightarrow> string option \<Rightarrow> scope \<Rightarrow> scope script" where
  "step3 be env u selected_catalog sc =
     if_truthy selected_catalog
       (\<lambda>catalog.
          and_then (lookup_name ''selected_schema'' (selected_schema sc)) (\<lambda>ss.
          if_truthy ss
            (\<lambda>schema.
               and_then (get_tables be env catalog schema) (\<lambda>df.
               and_then (getitem df ''tableName'') (\<lambda>table_list.
               and_then (selectbox ''Select a Table'' table_list (table_choice u)) (\<lambda>sel.
               returns (sc\<lparr>tables := Some df, selected_table := Some sel\<rparr>)))))
            (returns sc)))
       (returns sc)"

text \<open>
  \<^verbatim>\<open>
  st.divider()
  if selected_catalog and selected_schema and selected_table:
      st.subheader(f"Data Preview: `{selected_catalog}.{selected_schema}.{selected_table}`")
      data = get_table_data(selected_catalog, selected_schema, selected_table)
      st.dataframe(data, height=400, use_container_width=True)
  \<close>
  The call leaves \<^verbatim>\<open>limit\<close> to its default, 10.
\<close>

definition step4 ::
    "backend \<Rightarrow> environ \<Rightarrow> string option \<Rightarrow> scope \<Rightarrow> unit script" where
  "step4 be env selected_catalog sc =
     and_then (emit Divider) (\<lambda>_.
     if_truthy selected_catalog
       (\<lambda>catalog.
          and_then (lookup_name ''selected_schema'' (selected_schema sc)) (\<lambda>ss.
          if_truthy ss
            (\<lambda>schema.
               and_then (lookup_name ''selected_table'' (selected_table sc)) (\<lambda>st.
               if_truthy st
                 (\<lambda>table.
                    and_then (emit (Subheader
                       (''Data Preview: `'' @ catalog @ ''.'' @ schema @ ''.'' @ table @ ''`'')))
                      (\<lambda>_.
                    and_then (get_table_data be env catalog schema table 10) (\<lambda>data.
                    emit (Dataframe data))))
                 (returns ())))
            (returns ())))
       (returns ()))"

text \<open>
  \<^verbatim>\<open>
  col1, col2 = st.columns(2)

  if st.sidebar.checkbox("Show Schemas Metadata"):
      with col1:
          st.subheader(f"Schemas in `{selected_catalog}`")
          st.dataframe(schemas, height=300, use_container_width=True)

  if st.sidebar.checkbox("Show Tables Metadata"):
      with col2:
          st.subheader(f"Tables in `{selected_catalog}.{selected_schema}`")
          st.dataframe(tables, height=300, use_container_width=True)
  \<close>
  The f-string is evaluated before \<^verbatim>\<open>st.subheader\<close> is called, the frame's name
  after it.
\<close>

definition schemas_metadata :: "ui \<Rightarrow> string option \<Rightarrow> scope \<Rightarrow> unit script" where
  "schemas_metadata u selected_catalog sc =
     and_then (checkbox ''Show Schemas Metadata'' (show_schemas u)) (\<lambda>ticked.
     if ticked then
       and_then (emit (Col 1 (Subheader (''Schemas in `'' @ fmt selected_catalog @ ''`''))))
         (\<lambda>_.
       and_then (lookup_name ''schemas'' (schemas sc)) (\<lambda>df.
       emit (Col 1 (Dataframe df))))
     else returns ())"

definition tables_metadata :: "ui \<Rightarrow> string option \<Rightarrow> scope \<Rightarrow> unit script" where
  "tables_metadata u selected_catalog sc =
     and_then (checkbox ''Show Tables Metadata'' (show_tables u)) (\<lambda>ticked.
     if ticked then
       and_then (lookup_name ''selected_schema'' (selected_schema sc)) (\<lambda>ss.
       and_then (emit (Col 2 (Subheader
          (''Tables in `'' @ fmt selected_catalog @ ''.'' @ fmt ss @ ''`'')))) (\<lambda>_.
       and_then (lookup_name ''tables'' (tables sc)) (\<lambda>df.
       emit (Col 2 (Dataframe df)))))
     else returns ())"

definition metadata :: "ui \<Rightarrow> string option \<Rightarrow> scope \<Rightarrow> unit script" where
  "metadata u selected_catalog sc =
     and_then (emit (Columns 2)) (\<lambda>_.
     and_then (schemas_metadata u selected_catalog sc) (\<lambda>_.
     tables_metadata u selected_catalog sc))"

definition footer :: "unit script" where
  "footer = and_then (emit Divider) (\<lambda>_. emit (Markdown ''<footer>''))"

text \<open>Steps 1 to 4 and the metadata display, from line 79 on.\<close>

definition body :: "backend \<Rightarrow> environ \<Rightarrow> ui \<Rightarrow> unit script" where
  "body be env u =
     and_then (step1 be env u) (\<lambda>selected_catalog.
     and_then (step2 be env u selected_catalog unbound) (\<lambda>sc2.
     and_then (step3 be env u selected_catalog sc2) (\<lambda>sc3.
     and_then (step4 be env selected_catalog sc3) (\<lambda>_.
     and_then (metadata u selected_catalog sc3) (\<lambda>_.
     footer)))))"

text \<open>
  One run of the script: the page starts empty, the assertion of line 8 comes before
  everything else.
\<close>

definition app :: "backend \<Rightarrow> environ \<Rightarrow> ui \<Rightarrow> unit script" where
  "app be env u w =
     and_then (check_env env) (\<lambda>_.
     and_then header (\<lambda>_.
     body be env u)) (w\<lparr>screen := []\<rparr>)"

text \<open>Time passing between two calls or two passes.\<close>

definition advance :: "nat \<Rightarrow> world \<Rightarrow> world" where
  "advance d w = w\<lparr>now := now w + d\<rparr>"

definition executed :: "event list \<Rightarrow> string list" where
  "executed evs = concat (map (\<lambda>ev. case ev of Execute q \<Rightarrow> [q] | _ \<Rightarrow> []) evs)"

section \<open>Notions the properties are stated with\<close>

text \<open>A key is fresh when the cache holds an entry for it that has not expired.\<close>

definition fresh :: "cache_key \<Rightarrow> world \<Rightarrow> bool" where
  "fresh key w = (case cache w key of None \<Rightarrow> False | Some (v, expiry) \<Rightarrow> now w < expiry)"

text \<open>The client reaches the execution of the statement: no stage before it fails.\<close>

definition session_opens :: "backend \<Rightarrow> environ \<Rightarrow> world \<Rightarrow> bool" where
  "session_opens be env w =
     (case config (be (now w)) of
        Inl e \<Rightarrow> False
      | Inr host \<Rightarrow> connect (be (now w)) host (http_path env) = None \<and> cursor (be (now w)) = None)"


text \<open>
  Scoped use of the client's resources: \<open>track st evs\<close> runs a trace from the stack
  \<open>st\<close> of open resources and yields the stack left open. A cursor is opened on an open
  connection, a statement runs on an open cursor, and a resource is closed only when it
  is the innermost open one.
\<close>

fun track :: "event list \<Rightarrow> event list \<Rightarrow> event list option" where
  "track st [] = Some st"
| "track st (ConnOpen h p # es) = track (ConnOpen h p # st) es"
| "track st (CursorOpen # es) =
     (case st of ConnOpen h p # st' \<Rightarrow> track (CursorOpen # st) es | _ \<Rightarrow> None)"
| "track st (Execute q # es) = (case st of CursorOpen # st' \<Rightarrow> track st es | _ \<Rightarrow> None)"
| "track st (CursorClose # es) = (case st of CursorOpen # st' \<Rightarrow> track st' es | _ \<Rightarrow> None)"
| "track st (ConnClose # es) = (case st of ConnOpen h p # st' \<Rightarrow> track st' es | _ \<Rightarrow> None)"

section \<open>A small warehouse to run the script on\<close>

definition demo_frames :: "(string \<times> dataframe) list" where
  "demo_frames =
     [(''SHOW CATALOGS'', [(''catalog'', [''main'', ''dev'', ''empty'', ''my-cat''])]),
      (''SHOW SCHEMAS IN main'', [(''databaseName'', [''default'', ''sales'', ''hr''])]),
      (''SHOW SCHEMAS IN dev'', [(''databaseName'', [''staging''])]),
      (''SHOW SCHEMAS IN empty'', [(''databaseName'', [])]),
      (''SHOW TABLES IN main.default'',
         [(''database'', [''default'', ''default'']), (''tableName'', [''t1'', ''t 2'']),
          (''isTemporary'', [''False'', ''False''])]),
      (''SHOW TABLES IN main.hr'',
         [(''database'', [''hr'']), (''tableName'', [''people'']), (''isTemporary'', [''False''])]),
      (''SHOW TABLES IN dev.staging'',
         [(''database'', [''staging'']), (''tableName'', [''events'']),
          (''isTemporary'', [''False''])]),
      (''SELECT * FROM main.default.t1 LIMIT 5'',
         [(''id'', [''1'', ''2'', ''3'']), (''name'', [''a'', ''b'', ''c''])]),
      (''SELECT * FROM main.default.t1 LIMIT 10'',
         [(''id'', [''1'', ''2'', ''3'']), (''name'', [''a'', ''b'', ''c''])]),
      (''SELECT * FROM main.hr.people LIMIT 10'', [(''person'', [''ada'', ''bob''])]),
      (''SELECT * FROM dev.staging.events LIMIT 10'', [(''x'', [''7''])])]"

definition demo_wh :: warehouse where
  "demo_wh =
     \<lparr>config = Inr ''adb.example.net'', connect = (\<lambda>host path. None), cursor = None,
      execute = (\<lambda>q. case map_of demo_frames q of None \<Rightarrow> Inl QueryError | Some df \<Rightarrow> Inr df)\<rparr>"

definition demo_be :: backend where
  "demo_be t = demo_wh"

definition demo_env :: environ where
  "demo_env = [''DATABRICKS_WAREHOUSE_ID'' \<mapsto> ''abc123'']"

definition blank_env :: environ where
  "blank_env = [''DATABRICKS_WAREHOUSE_ID'' \<mapsto> []]"

definition start :: world where
  "start = \<lparr>now = 0, log = [], cache = Map.empty, screen = []\<rparr>"

definition pick :: "nat \<Rightarrow> nat \<Rightarrow> nat \<Rightarrow> bool \<Rightarrow> bool \<Rightarrow> ui" where
  "pick c s t b1 b2 =
     \<lparr>catalog_choice = c, schema_choice = s, table_choice = t, show_schemas = b1,
      show_tables = b2\<rparr>"


section \<open>Properties of scripts that compose\<close>


text \<open>
  \<open>calls P w w'\<close>: from \<open>w\<close> to \<open>w'\<close> the warehouse executed the statements of a
  list of accessor calls whose keys all satisfy \<open>P\<close>, in this order, and the cache
  entries of the other keys are as they were. \<open>calls_only P m\<close>: that is all \<open>m\<close> does.
\<close>

definition calls :: "(cache_key \<Rightarrow> bool) \<Rightarrow> world \<Rightarrow> world \<Rightarrow> bool" where
  "calls P w w' =
     ((\<exists>ks. executed (log w') = executed (log w) @ map spec_statement ks \<and> list_all P ks) \<and>
      (\<forall>k. \<not> P k \<longrightarrow> cache w' k = cache w k))"

definition calls_only :: "(cache_key \<Rightarrow> bool) \<Rightarrow> 'a script \<Rightarrow> bool" where
  "calls_only P m = (\<forall>w. calls P w (snd (m w)))"

text \<open>The keys of the calls that leave \<^verbatim>\<open>limit\<close> to its default.\<close>

fun default_limit :: "cache_key \<Rightarrow> bool" where
  "default_limit (KTableData c s t n) = (n = 10)"
| "default_limit k = True"

section \<open>What a page shows, and where it comes from\<close>

text \<open>
  The selectboxes of a label on a page, each with its options and its selection; the
  frames of the data preview; the frames shown in a column.
\<close>

definition boxes :: "string \<Rightarrow> element list \<Rightarrow> (string list \<times> string option) list" where
  "boxes label scr =
     concat (map (\<lambda>el. case el of
                          Selectbox l opts sel \<Rightarrow> (if l = label then [(opts, sel)] else [])
                        | _ \<Rightarrow> []) scr)"

definition previews :: "element list \<Rightarrow> dataframe list" where
  "previews scr = concat (map (\<lambda>el. case el of Dataframe df \<Rightarrow> [df] | _ \<Rightarrow> []) scr)"

definition col_frames :: "nat \<Rightarrow> element list \<Rightarrow> dataframe list" where
  "col_frames n scr =
     concat (map (\<lambda>el. case el of
                          Col m (Dataframe df) \<Rightarrow> (if m = n then [df] else [])
                        | _ \<Rightarrow> []) scr)"

text \<open>
  A frame answers a call at time \<open>t0\<close> when the warehouse returned it for the call's
  statement within the freshness window that ends at \<open>t0\<close>. A list is listed for a call
  when it is a column of such an answer. A selection is chosen from a list when it is
  one of its elements, or nothing when the list is empty.
\<close>

definition answers :: "backend \<Rightarrow> nat \<Rightarrow> cache_key \<Rightarrow> dataframe \<Rightarrow> bool" where
  "answers be t0 key df = (\<exists>t \<in> {t0 - 59 .. t0}. execute (be t) (spec_statement key) = Inr df)"

definition listed :: "backend \<Rightarrow> nat \<Rightarrow> cache_key \<Rightarrow> string \<Rightarrow> string list \<Rightarrow> bool" where
  "listed be t0 key col opts =
     (\<exists>t \<in> {t0 - 59 .. t0}.
        case execute (be t) (spec_statement key) of
          Inl e \<Rightarrow> False
        | Inr df \<Rightarrow> map_of df col = Some opts)"

definition chosen :: "string list \<Rightarrow> string option \<Rightarrow> bool" where
  "chosen opts sel = (case sel of None \<Rightarrow> opts = [] | Some x \<Rightarrow> x \<in> set opts)"

text \<open>
  A page is keyed to its own selections: there is at most one selectbox per level; the
  catalog list is the warehouse's; the schema list is the warehouse's list for the
  catalog selected on this page, the table list the one for the catalog and schema
  selected on this page, each selection taken from the list shown with it; the preview
  and the metadata frames are the warehouse's answers for the selections of this page.
\<close>

definition keyed :: "backend \<Rightarrow> nat \<Rightarrow> element list \<Rightarrow> bool" where
  "keyed be t0 scr =
     (let catalog = map snd (boxes ''Select a Catalog'' scr);
          schema = map snd (boxes ''Select a Schema'' scr);
          table = map snd (boxes ''Select a Table'' scr)
      in length catalog \<le> 1 \<and> length schema \<le> 1 \<and> length table \<le> 1 \<and>
         (\<forall>(opts, sel) \<in> set (boxes ''Select a Catalog'' scr).
            listed be t0 KCatalogs ''catalog'' opts \<and> chosen opts sel) \<and>
         (\<forall>(opts, sel) \<in> set (boxes ''Select a Schema'' scr).
            \<exists>c. catalog = [Some c] \<and> listed be t0 (KSchemas c) ''databaseName'' opts \<and>
                chosen opts sel) \<and>
         (\<forall>(opts, sel) \<in> set (boxes ''Select a Table'' scr).
            \<exists>c s. catalog = [Some c] \<and> schema = [Some s] \<and>
                  listed be t0 (KTables c s) ''tableName'' opts \<and> chosen opts sel) \<and>
         (\<forall>df \<in> set (previews scr).
            \<exists>c s t. catalog = [Some c] \<and> schema = [Some s] \<and> table = [Some t] \<and>
                    answers be t0 (KTableData c s t 10) df) \<and>
         (\<forall>df \<in> set (col_frames 1 scr). \<exists>c. catalog = [Some c] \<and> answers be t0 (KSchemas c) df) \<and>
         (\<forall>df \<in> set (col_frames 2 scr).
            \<exists>c s. catalog = [Some c] \<and> schema = [Some s] \<and> answers be t0 (KTables c s) df))"

text \<open>
  The cache holds only what the warehouse returned: every entry was the answer to the
  statement of its key at the time the entry was made, 60 seconds before its expiry.
\<close>

definition cache_sound :: "backend \<Rightarrow> world \<Rightarrow> bool" where
  "cache_sound be w =
     (\<forall>key df expiry. cache w key = Some (df, expiry) \<longrightarrow>
        (\<exists>t \<le> now w. expiry = t + 60 \<and> execute (be t) (spec_statement key) = Inr df))"

text \<open>
  The names of the script agree with the page: what is bound in the scope is what the
  selectboxes show, and the frames on the page are the bound ones.
\<close>

definition consistent ::
    "backend \<Rightarrow> nat \<Rightarrow> string option \<Rightarrow> scope \<Rightarrow> element list \<Rightarrow> bool" where
  "consistent be t0 csel sc scr =
     ((\<exists>copts. boxes ''Select a Catalog'' scr = [(copts, csel)] \<and>
         listed be t0 KCatalogs ''catalog'' copts \<and> chosen copts csel) \<and>
      (case selected_schema sc of
         None \<Rightarrow> boxes ''Select a Schema'' scr = [] \<and> schemas sc = None \<and> selected_table sc = None
       | Some ssel \<Rightarrow>
           (\<exists>c opts df. csel = Some c \<and> boxes ''Select a Schema'' scr = [(opts, ssel)] \<and>
              schemas sc = Some df \<and> answers be t0 (KSchemas c) df \<and>
              map_of df ''databaseName'' = Some opts \<and> chosen opts ssel)) \<and>
      (case selected_table sc of
         None \<Rightarrow> boxes ''Select a Table'' scr = [] \<and> tables sc = None
       | Some tsel \<Rightarrow>
           (\<exists>c s opts df. csel = Some c \<and> selected_schema sc = Some (Some s) \<and>
              boxes ''Select a Table'' scr = [(opts, tsel)] \<and> tables sc = Some df \<and>
              answers be t0 (KTables c s) df \<and> map_of df ''tableName'' = Some opts \<and>
              chosen opts tsel)) \<and>
      (\<forall>df \<in> set (previews scr).
         \<exists>c s t. csel = Some c \<and> selected_schema sc = Some (Some s) \<and>
                 selected_table sc = Some (Some t) \<and> answers be t0 (KTableData c s t 10) df) \<and>
      (\<forall>df \<in> set (col_frames 1 scr). schemas sc = Some df) \<and>
      (\<forall>df \<in> set (col_frames 2 scr). tables sc = Some df))"

text \<open>The state between two steps of a pass that started at time \<open>t0\<close>.\<close>

definition staged :: "backend \<Rightarrow> nat \<Rightarrow> string option \<Rightarrow> scope \<Rightarrow> world \<Rightarrow> bool" where
  "staged be t0 csel sc w =
     (cache_sound be w \<and> now w = t0 \<and> consistent be t0 csel sc (screen w))"

text \<open>A page without selectboxes and frames, as before step 1.\<close>

definition bare :: "element list \<Rightarrow> bool" where
  "bare scr =
     (boxes ''Select a Catalog'' scr = [] \<and> boxes ''Select a Schema'' scr = [] \<and>
      boxes ''Select a Table'' scr = [] \<and> previews scr = [] \<and> col_frames 1 scr = [] \<and>
      col_frames 2 scr = [])"

text \<open>\<open>keeps S m\<close>: from a state in \<open>S\<close>, the script \<open>m\<close> ends in a state in \<open>S\<close>.\<close>

definition keeps :: "(world \<Rightarrow> bool) \<Rightarrow> 'a script \<Rightarrow> bool" where
  "keeps S m = (\<forall>w. S w \<longrightarrow> S (snd (m w)))"

section \<open>What the warehouse promises for a preview statement\<close>

text \<open>
  Reading a preview statement back: the text \<^verbatim>\<open>SELECT * FROM\<close>, a dotted name made of
  letters, digits and underscores, the text \<^verbatim>\<open>LIMIT\<close> and a decimal integer.
\<close>

definition digit_of :: "char \<Rightarrow> nat option" where
  "digit_of c = map_of (zip ''0123456789'' [0 ..< 10]) c"

fun digits_value :: "nat \<Rightarrow> string \<Rightarrow> nat option" where
  "digits_value acc [] = Some acc"
| "digits_value acc (c # cs) =
     (case digit_of c of None \<Rightarrow> None | Some d \<Rightarrow> digits_value (10 * acc + d) cs)"

definition parse_nat :: "string \<Rightarrow> nat option" where
  "parse_nat s = (if s = [] then None else digits_value 0 s)"

definition parse_int :: "string \<Rightarrow> int option" where
  "parse_int s =
     (case s of
        [] \<Rightarrow> None
      | c # cs \<Rightarrow>
          if c = CHR ''-'' then map_option (\<lambda>k. - int k) (parse_nat cs)
          else map_option int (parse_nat s))"

definition ident_char :: "char \<Rightarrow> bool" where
  "ident_char c =
     (c \<in> set ''abcdefghijklmnopqrstuvwxyzABCDEFGHIJKLMNOPQRSTUVWXYZ0123456789_'')"

definition plain :: "string \<Rightarrow> bool" where
  "plain s = list_all ident_char s"

definition path_char :: "char \<Rightarrow> bool" where
  "path_char c = (ident_char c \<or> c = CHR ''.'')"

definition parse_select :: "string \<Rightarrow> (string \<times> int) option" where
  "parse_select stmt =
     (if take 14 stmt = ''SELECT * FROM '' then
        (let rest = drop 14 stmt;
             name = takeWhile path_char rest;
             tail = dropWhile path_char rest
         in if take 7 tail = '' LIMIT '' then
              (case parse_int (drop 7 tail) of None \<Rightarrow> None | Some n \<Rightarrow> Some (name, n))
            else None)
      else None)"

text \<open>
  Modelled from the spec: the warehouse evaluates the statements and is not part of the
  repository. For \<^verbatim>\<open>SELECT * FROM <catalog>.<schema>.<table> LIMIT <n>\<close> the spec's preview
  rows are rows of that table, at most \<open>n\<close> of them: a frame the warehouse returns for
  such a statement has at most \<open>n\<close> rows and only columns of the table named, where
  \<open>cols\<close> gives the columns of the tables that exist.
\<close>

definition honours_select :: "backend \<Rightarrow> (string \<rightharpoonup> string list) \<Rightarrow> bool" where
  "honours_select be cols =
     (\<forall>t stmt df. execute (be t) stmt = Inr df \<longrightarrow>
        (case parse_select stmt of
           None \<Rightarrow> True
         | Some (name, n) \<Rightarrow>
             int (nrows df) \<le> n \<and>
             (case cols name of None \<Rightarrow> False | Some cs \<Rightarrow> set (column_names df) \<subseteq> set cs)))"

definition demo_cols :: "string \<rightharpoonup> string list" where
  "demo_cols =
     [''main.default.t1'' \<mapsto> [''id'', ''name''], ''main.hr.people'' \<mapsto> [''person''],
      ''dev.staging.events'' \<mapsto> [''x'']]"

section \<open>Properties\<close>

subsection \<open>Running the script on the small warehouse\<close>

lemmas script_defs = app_def check_env_def truthy_def header_def body_def step1_def step2_def
  step3_def step4_def metadata_def schemas_metadata_def tables_metadata_def footer_def
  if_truthy_def lookup_name_def get_catalogs_def get_schemas_def get_tables_def
  get_table_data_def cache_data_def sql_query_def Let_def and_then_def getitem_def
  selectbox_def checkbox_def emit_def returns_def raises_def unbound_def fmt_def http_path_def

lemmas demo_defs = demo_be_def demo_wh_def demo_frames_def demo_env_def pick_def start_def

subsection \<open>The executor and the cache, step by step\<close>

lemma run_call_cached:
  "run_call be env key = cache_data 60 key (sql_query be env (spec_statement key))"
  by (cases key) (simp_all add: get_catalogs_def get_schemas_def get_tables_def get_table_data_def)

lemma executed_append [simp]: "executed (xs @ ys) = executed xs @ executed ys"
  by (simp add: executed_def)

lemma executed_Nil [simp]: "executed [] = []"
  by (simp add: executed_def)

lemma sql_query_executed:
  "executed (log (snd (sql_query be env q w))) =
     executed (log w) @ (if session_opens be env w then [q] else [])"
  by (simp add: sql_query_def session_opens_def executed_def Let_def split: sum.splits option.splits)

lemma sql_query_now [simp]: "now (snd (sql_query be env q w)) = now w"
  by (simp add: sql_query_def Let_def split: sum.splits option.splits)

lemma sql_query_cache [simp]: "cache (snd (sql_query be env q w)) = cache w"
  by (simp add: sql_query_def Let_def split: sum.splits option.splits)

lemma sql_query_screen [simp]: "screen (snd (sql_query be env q w)) = screen w"
  by (simp add: sql_query_def Let_def split: sum.splits option.splits)

lemma cache_data_hit:
  "fresh key w \<Longrightarrow> cache_data ttl key f w = (Inr (fst (the (cache w key))), w)"
  by (auto simp: cache_data_def fresh_def Let_def split: option.splits)

lemma cache_data_miss:
  "\<not> fresh key w \<Longrightarrow> cache_data ttl key f w =
     (case f w of
        (Inl e, w') \<Rightarrow> (Inl e, w')
      | (Inr v, w') \<Rightarrow> (Inr v, w'\<lparr>cache := (cache w')(key \<mapsto> (v, now w' + ttl))\<rparr>))"
  by (auto simp: cache_data_def fresh_def Let_def split: option.splits)

lemma run_call_executed:
  "executed (log (snd (run_call be env key w))) =
     executed (log w) @
       (if \<not> fresh key w \<and> session_opens be env w then [spec_statement key] else [])"
proof (cases "fresh key w")
  case True
  then show ?thesis by (simp add: run_call_cached cache_data_hit)
next
  case False
  have "log (snd (run_call be env key w)) = log (snd (sql_query be env (spec_statement key) w))"
    using False by (simp add: run_call_cached cache_data_miss split: prod.splits sum.splits)
  then show ?thesis using False by (simp add: sql_query_executed)
qed

lemma demo_session [simp]: "session_opens demo_be demo_env w"
  by (simp add: session_opens_def demo_be_def demo_wh_def)

lemma start_not_fresh [simp]: "\<not> fresh key start"
  by (simp add: fresh_def start_def)

lemma start_fields [simp]:
  "now start = 0" "log start = []" "cache start = Map.empty" "screen start = []"
  by (simp_all add: start_def)

lemma demo_http_path [simp]: "http_path demo_env = ''/sql/1.0/warehouses/abc123''"
  by (simp add: http_path_def demo_env_def fmt_def)

subsection \<open>The statements sent to the warehouse\<close>

text \<open>
  C5. Each of the four accessors is the cached call of the executor on the statement of
  its template, the arguments put in as they are: with the key not fresh and the session
  opening, the statement the warehouse executes is exactly that string, and nothing is
  executed otherwise.
\<close>

theorem accessor_statement:
  "run_call be env key w = cache_data 60 key (sql_query be env (spec_statement key)) w \<and>
   executed (log (snd (run_call be env key w))) =
     executed (log w) @
       (if \<not> fresh key w \<and> session_opens be env w then [spec_statement key] else [])"
  using run_call_executed [of be env key w] by (simp add: run_call_cached [symmetric])

theorem accessor_statement_witness:
  "executed (log (snd (run_call demo_be demo_env (KTableData ''main'' ''default'' ''t1'' 5) start))) =
     [''SELECT * FROM main.default.t1 LIMIT 5''] \<and>
   executed (log (snd (run_call demo_be demo_env (KTables ''main'' ''default'') start))) =
     [''SHOW TABLES IN main.default''] \<and>
   executed (log (snd (run_call demo_be demo_env (KSchemas ''x; DROP TABLE y'') start))) =
     [''SHOW SCHEMAS IN x; DROP TABLE y''] \<and>
   executed (log (snd (run_call demo_be demo_env KCatalogs start))) = [''SHOW CATALOGS'']"
  using accessor_statement [THEN conjunct2, of demo_be demo_env
      "KTableData ''main'' ''default'' ''t1'' 5" start]
    accessor_statement [THEN conjunct2, of demo_be demo_env "KTables ''main'' ''default''" start]
    accessor_statement [THEN conjunct2, of demo_be demo_env "KSchemas ''x; DROP TABLE y''" start]
    accessor_statement [THEN conjunct2, of demo_be demo_env KCatalogs start]
  by (simp add: str_int_def str_nat.simps digit_char_def)

subsection \<open>The executor's resources\<close>

text \<open>
  C7. Every call of the executor adds to the trace a well-nested run that leaves nothing
  open: whatever it opened, it closed before returning. When the session opens, the run
  is connection, cursor, statement, cursor closed, connection closed, whether the
  statement succeeds or fails; and when the statement fails, the call raises its error
  after both are closed.
\<close>

theorem sql_query_scoped:
  "\<exists>evs. log (snd (sql_query be env q w)) = log w @ evs \<and> track [] evs = Some [] \<and>
     (session_opens be env w \<longrightarrow>
        (\<exists>host. evs = [ConnOpen host (http_path env), CursorOpen, Execute q, CursorClose,
                       ConnClose])) \<and>
     (\<forall>e. session_opens be env w \<and> execute (be (now w)) q = Inl e \<longrightarrow>
        fst (sql_query be env q w) = Inl (WarehouseError e))"
  by (auto simp: sql_query_def session_opens_def Let_def split: sum.splits option.splits)

theorem sql_query_scoped_witness:
  "session_opens demo_be demo_env start \<and>
   execute (demo_be (now start)) ''SELECT 1 FROM'' = Inl QueryError \<and>
   fst (sql_query demo_be demo_env ''SELECT 1 FROM'' start) = Inl (WarehouseError QueryError) \<and>
   log (snd (sql_query demo_be demo_env ''SELECT 1 FROM'' start)) =
     [ConnOpen ''adb.example.net'' ''/sql/1.0/warehouses/abc123'', CursorOpen,
      Execute ''SELECT 1 FROM'', CursorClose, ConnClose] \<and>
   track [] (log (snd (sql_query demo_be demo_env ''SELECT 1 FROM'' start))) = Some []"
proof -
  have ex: "execute (demo_be (now start)) ''SELECT 1 FROM'' = Inl QueryError"
    by (simp add: demo_be_def demo_wh_def demo_frames_def)
  from sql_query_scoped [of demo_be demo_env "''SELECT 1 FROM''" start]
  obtain evs where
    evs: "log (snd (sql_query demo_be demo_env ''SELECT 1 FROM'' start)) = log start @ evs"
    and tr: "track [] evs = Some []"
    and er: "\<forall>e. session_opens demo_be demo_env start \<and>
        execute (demo_be (now start)) ''SELECT 1 FROM'' = Inl e \<longrightarrow>
        fst (sql_query demo_be demo_env ''SELECT 1 FROM'' start) = Inl (WarehouseError e)"
    by blast
  have "log (snd (sql_query demo_be demo_env ''SELECT 1 FROM'' start)) =
     [ConnOpen ''adb.example.net'' ''/sql/1.0/warehouses/abc123'', CursorOpen,
      Execute ''SELECT 1 FROM'', CursorClose, ConnClose]"
    by (simp add: sql_query_def demo_be_def demo_wh_def demo_frames_def Let_def)
  with evs tr er ex show ?thesis by simp
qed

subsection \<open>The check of the environment\<close>

text \<open>
  C6, as the code has it. When \<^verbatim>\<open>DATABRICKS_WAREHOUSE_ID\<close> is unset or set to the empty
  string, the pass fails with an \<^verbatim>\<open>AssertionError\<close> carrying the message, before
  anything else runs: the trace and the cache are as they were. When it is set to a
  non-empty value, the pass goes on with the page.
\<close>

theorem startup_check:
  "(env ''DATABRICKS_WAREHOUSE_ID'' = None \<or> env ''DATABRICKS_WAREHOUSE_ID'' = Some [] \<longrightarrow>
      app be env u w =
        (Inl (AssertionError ''DATABRICKS_WAREHOUSE_ID must be set in app.yaml.''),
         w\<lparr>screen := []\<rparr>)) \<and>
   (\<forall>v. env ''DATABRICKS_WAREHOUSE_ID'' = Some v \<and> v \<noteq> [] \<longrightarrow>
      app be env u w = and_then header (\<lambda>_. body be env u) (w\<lparr>screen := []\<rparr>))"
  by (auto simp: app_def check_env_def truthy_def and_then_def returns_def raises_def)

theorem startup_check_witness:
  "Map.empty ''DATABRICKS_WAREHOUSE_ID'' = (None :: string option) \<and>
   app demo_be Map.empty (pick 0 0 0 False False) start =
     (Inl (AssertionError ''DATABRICKS_WAREHOUSE_ID must be set in app.yaml.''), start) \<and>
   demo_env ''DATABRICKS_WAREHOUSE_ID'' = Some ''abc123'' \<and>
   app demo_be demo_env (pick 0 0 0 False False) start =
     and_then header (\<lambda>_. body demo_be demo_env (pick 0 0 0 False False)) start"
  using startup_check [of Map.empty demo_be "pick 0 0 0 False False" start]
    startup_check [of demo_env demo_be "pick 0 0 0 False False" start]
  by (simp add: demo_env_def start_def)

text \<open>
  The variable set, to the empty string: \<^verbatim>\<open>os.getenv\<close> returns \<^verbatim>\<open>''\<close>, which is
  false, and the assertion fails.
\<close>

theorem startup_set_but_empty:
  "blank_env ''DATABRICKS_WAREHOUSE_ID'' = Some [] \<and>
   fst (app demo_be blank_env (pick 0 0 0 False False) start) =
     Inl (AssertionError ''DATABRICKS_WAREHOUSE_ID must be set in app.yaml.'')"
  by (simp add: blank_env_def app_def check_env_def truthy_def and_then_def raises_def)

subsection \<open>The freshness window\<close>

lemma sql_query_result:
  assumes "session_opens be env w"
  shows "fst (sql_query be env q w) =
         (case execute (be (now w)) q of Inl e \<Rightarrow> Inl (WarehouseError e) | Inr df \<Rightarrow> Inr df)"
  using assms
  by (auto simp: sql_query_def session_opens_def Let_def split: sum.splits option.splits)

lemma run_call_miss:
  assumes "\<not> fresh key w"
  shows "fst (run_call be env key w) = fst (sql_query be env (spec_statement key) w)"
    and "\<And>df. fst (run_call be env key w) = Inr df \<Longrightarrow>
           cache (snd (run_call be env key w)) key = Some (df, now w + 60)"
proof -
  obtain r v where q: "sql_query be env (spec_statement key) w = (r, v)"
    by (cases "sql_query be env (spec_statement key) w")
  have nv: "now v = now w"
    using sql_query_now [of be env "spec_statement key" w] q by simp
  show "fst (run_call be env key w) = fst (sql_query be env (spec_statement key) w)"
    using assms q by (simp add: run_call_cached cache_data_miss split: sum.splits)
  show "cache (snd (run_call be env key w)) key = Some (df, now w + 60)"
    if "fst (run_call be env key w) = Inr df" for df
    using assms q nv that by (simp add: run_call_cached cache_data_miss split: sum.splits)
qed

lemma run_call_hit:
  assumes "cache w key = Some (df, expiry)" and "now w < expiry"
  shows "run_call be env key w = (Inr df, w)"
proof -
  have "fresh key w" using assms by (simp add: fresh_def)
  then show ?thesis using assms(1) by (simp add: run_call_cached cache_data_hit)
qed

text \<open>
  C3, as the code has it. Let a call miss the cache, the session open and the warehouse
  return a frame for the statement. Then the call returns that frame and the statement
  is executed once; and a second call with the same arguments less than 60 seconds
  later, the entry still in the cache, returns the same frame and leaves the world as it
  found it: no connection, no statement. Two calls, one query.
\<close>

theorem cached_within_window:
  assumes "\<not> fresh key w1"
    and "session_opens be env w1"
    and "execute (be (now w1)) (spec_statement key) = Inr df"
    and "now w2 < now w1 + 60"
    and "cache w2 key = cache (snd (run_call be env key w1)) key"
  shows "fst (run_call be env key w1) = Inr df \<and>
         executed (log (snd (run_call be env key w1))) =
           executed (log w1) @ [spec_statement key] \<and>
         run_call be env key w2 = (Inr df, w2)"
proof -
  have first: "fst (run_call be env key w1) = Inr df"
    using run_call_miss(1) [OF assms(1), of be env] sql_query_result [OF assms(2)] assms(3)
    by simp
  have once: "executed (log (snd (run_call be env key w1))) =
      executed (log w1) @ [spec_statement key]"
    using run_call_executed [of be env key w1] assms(1,2) by simp
  have "cache w2 key = Some (df, now w1 + 60)"
    using run_call_miss(2) [OF assms(1) first] assms(5) by simp
  then have "run_call be env key w2 = (Inr df, w2)"
    using assms(4) by (rule run_call_hit)
  with first once show ?thesis by simp
qed

lemma demo_schemas_main:
  "get_schemas demo_be demo_env ''main'' start =
     (Inr [(''databaseName'', [''default'', ''sales'', ''hr''])],
      \<lparr>now = 0,
       log = [ConnOpen ''adb.example.net'' ''/sql/1.0/warehouses/abc123'', CursorOpen,
              Execute ''SHOW SCHEMAS IN main'', CursorClose, ConnClose],
       cache = [KSchemas ''main'' \<mapsto> ([(''databaseName'', [''default'', ''sales'', ''hr''])], 60)],
       screen = []\<rparr>)"
  by (simp add: get_schemas_def cache_data_def sql_query_def demo_be_def demo_wh_def
      demo_frames_def start_def Let_def)

lemma demo_answers_schemas_main:
  "execute (demo_be t) (spec_statement (KSchemas ''main'')) =
     Inr [(''databaseName'', [''default'', ''sales'', ''hr''])]"
  by (simp add: demo_be_def demo_wh_def demo_frames_def)

theorem cached_within_window_witness:
  "\<not> fresh (KSchemas ''main'') start \<and>
   session_opens demo_be demo_env start \<and>
   execute (demo_be (now start)) (spec_statement (KSchemas ''main'')) =
     Inr [(''databaseName'', [''default'', ''sales'', ''hr''])] \<and>
   now (advance 59 (snd (run_call demo_be demo_env (KSchemas ''main'') start))) < now start + 60 \<and>
   fst (run_call demo_be demo_env (KSchemas ''main'') start) =
     Inr [(''databaseName'', [''default'', ''sales'', ''hr''])] \<and>
   executed (log (snd (run_call demo_be demo_env (KSchemas ''main'') start))) =
     [''SHOW SCHEMAS IN main''] \<and>
   run_call demo_be demo_env (KSchemas ''main'')
       (advance 59 (snd (run_call demo_be demo_env (KSchemas ''main'') start))) =
     (Inr [(''databaseName'', [''default'', ''sales'', ''hr''])],
      advance 59 (snd (run_call demo_be demo_env (KSchemas ''main'') start)))"
proof -
  let ?key = "KSchemas ''main''"
  let ?df = "[(''databaseName'', [''default'', ''sales'', ''hr''])]"
  let ?w2 = "advance 59 (snd (run_call demo_be demo_env ?key start))"
  have h1: "\<not> fresh ?key start" by simp
  have h2: "session_opens demo_be demo_env start" by simp
  have h3: "execute (demo_be (now start)) (spec_statement ?key) = Inr ?df"
    by (rule demo_answers_schemas_main)
  have n2: "now ?w2 = 59"
    by (simp add: demo_schemas_main advance_def)
  have h4: "now ?w2 < now start + 60"
    using n2 by simp
  have h5: "cache ?w2 ?key = cache (snd (run_call demo_be demo_env ?key start)) ?key"
    by (simp add: advance_def)
  note c = cached_within_window [OF h1 h2 h3 h4 h5]
  have c2: "executed (log (snd (run_call demo_be demo_env ?key start))) = [''SHOW SCHEMAS IN main'']"
    using c [THEN conjunct2, THEN conjunct1] by simp
  show ?thesis
    by (rule conjI [OF h1 conjI [OF h2 conjI [OF h3 conjI [OF h4
          conjI [OF c [THEN conjunct1] conjI [OF c2 c [THEN conjunct2, THEN conjunct2]]]]]]])
qed

text \<open>
  A call that raises stores nothing: the statement for the catalog \<^verbatim>\<open>my-cat\<close>, which
  the warehouse rejects, is executed by the first call and again by a second call one
  second later. Two calls, two queries, no result.
\<close>

theorem failing_statement_sent_twice:
  "fst (run_call demo_be demo_env (KSchemas ''my-cat'') start) =
     Inl (WarehouseError QueryError) \<and>
   now (advance 1 (snd (run_call demo_be demo_env (KSchemas ''my-cat'') start))) < now start + 60 \<and>
   fst (run_call demo_be demo_env (KSchemas ''my-cat'')
         (advance 1 (snd (run_call demo_be demo_env (KSchemas ''my-cat'') start)))) =
     Inl (WarehouseError QueryError) \<and>
   executed (log (snd (run_call demo_be demo_env (KSchemas ''my-cat'')
         (advance 1 (snd (run_call demo_be demo_env (KSchemas ''my-cat'') start)))))) =
     [''SHOW SCHEMAS IN my-cat'', ''SHOW SCHEMAS IN my-cat'']"
  by (simp add: get_schemas_def cache_data_def sql_query_def demo_be_def demo_wh_def
      demo_frames_def start_def Let_def advance_def executed_def)



subsection \<open>A catalog without schemas\<close>

text \<open>
  C2, at a catalog with no schemas and the box "Show Tables Metadata" ticked. The
  accessor returns the empty frame. Step 3 is skipped, so \<^verbatim>\<open>tables\<close> is never bound,
  and line 114 reads it: the pass ends with a \<^verbatim>\<open>NameError\<close>.
\<close>

theorem no_schemas_tables_metadata:
  "fst (run_call demo_be demo_env (KSchemas ''empty'') start) = Inr [(''databaseName'', [])] \<and>
   fst (app demo_be demo_env (pick 2 0 0 False True) start) = Inl (NameError ''tables'')"
  by (simp add: script_defs demo_defs)

subsection \<open>Errors of the warehouse\<close>


lemma and_then_returned: "m w = (Inr x, w') \<Longrightarrow> and_then m f w = f x w'"
  by (simp add: and_then_def)


















subsection \<open>The calls a pass makes\<close>

lemma calls_refl: "calls P w w"
  unfolding calls_def by (auto intro: exI [of _ "[]"])

lemma calls_screen: "calls P w (w\<lparr>screen := scr\<rparr>)"
  unfolding calls_def by (auto intro: exI [of _ "[]"])

lemma calls_trans:
  assumes "calls P w v" and "calls P v w'"
  shows "calls P w w'"
proof -
  from assms(1) obtain ks where
    ks: "executed (log v) = executed (log w) @ map spec_statement ks" "list_all P ks"
    and ck: "\<forall>k. \<not> P k \<longrightarrow> cache v k = cache w k"
    unfolding calls_def by blast
  from assms(2) obtain ks' where
    ks': "executed (log w') = executed (log v) @ map spec_statement ks'" "list_all P ks'"
    and ck': "\<forall>k. \<not> P k \<longrightarrow> cache w' k = cache v k"
    unfolding calls_def by blast
  have "executed (log w') = executed (log w) @ map spec_statement (ks @ ks')"
    using ks(1) ks'(1) by simp
  moreover have "list_all P (ks @ ks')"
    using ks(2) ks'(2) by simp
  ultimately have "\<exists>ks. executed (log w') = executed (log w) @ map spec_statement ks \<and>
      list_all P ks"
    by blast
  moreover have "\<forall>k. \<not> P k \<longrightarrow> cache w' k = cache w k"
    using ck ck' by simp
  ultimately show ?thesis
    unfolding calls_def by simp
qed

lemma calls_only_returns [intro!]: "calls_only P (returns x)"
  by (simp add: calls_only_def returns_def calls_refl)

lemma calls_only_raises [intro!]: "calls_only P (raises e)"
  by (simp add: calls_only_def raises_def calls_refl)

lemma calls_only_emit [intro!]: "calls_only P (emit el)"
  by (simp add: calls_only_def emit_def calls_screen)

lemma calls_only_and_then [intro!]:
  assumes "calls_only P m" and "\<And>x. calls_only P (f x)"
  shows "calls_only P (and_then m f)"
  unfolding calls_only_def
proof
  fix w
  obtain r v where mw: "m w = (r, v)" by (cases "m w")
  have wv: "calls P w v"
    using assms(1) mw unfolding calls_only_def by (metis snd_conv)
  show "calls P w (snd (and_then m f w))"
  proof (cases r)
    case (Inl e)
    with mw wv show ?thesis by (simp add: and_then_def)
  next
    case (Inr x)
    have "calls P v (snd (f x v))"
      using assms(2) [of x] unfolding calls_only_def by blast
    with wv have "calls P w (snd (f x v))" by (rule calls_trans)
    with mw Inr show ?thesis by (simp add: and_then_def)
  qed
qed

lemma calls_only_if_truthy [intro!]:
  "(\<And>s. calls_only P (yes s)) \<Longrightarrow> calls_only P no \<Longrightarrow> calls_only P (if_truthy v yes no)"
  by (simp add: if_truthy_def split: option.splits)

lemma calls_only_if [intro!]:
  "calls_only P m \<Longrightarrow> calls_only P n \<Longrightarrow> calls_only P (if b then m else n)"
  by simp

lemma run_call_cache_other:
  "k \<noteq> key \<Longrightarrow> cache (snd (run_call be env key w)) k = cache w k"
proof (cases "fresh key w")
  case True
  then show ?thesis by (simp add: run_call_cached cache_data_hit)
next
  case False
  assume "k \<noteq> key"
  with False show ?thesis
    using sql_query_cache [of be env "spec_statement key" w]
    by (cases "sql_query be env (spec_statement key) w")
      (auto simp: run_call_cached cache_data_miss split: sum.splits)
qed

lemma calls_only_run_call:
  assumes "P key"
  shows "calls_only P (run_call be env key)"
  unfolding calls_only_def calls_def
proof (intro allI conjI impI)
  fix w
  let ?ks = "if \<not> fresh key w \<and> session_opens be env w then [key] else []"
  have "executed (log (snd (run_call be env key w))) =
      executed (log w) @ map spec_statement ?ks"
    using run_call_executed [of be env key w] by simp
  moreover have "list_all P ?ks" using assms by simp
  ultimately show "\<exists>ks. executed (log (snd (run_call be env key w))) =
      executed (log w) @ map spec_statement ks \<and> list_all P ks"
    by blast
next
  fix w k
  assume "\<not> P k"
  with assms have "k \<noteq> key" by blast
  then show "cache (snd (run_call be env key w)) k = cache w k"
    by (rule run_call_cache_other)
qed

lemma calls_only_accessors [intro!]:
  "P KCatalogs \<Longrightarrow> calls_only P (get_catalogs be env)"
  "P (KSchemas c) \<Longrightarrow> calls_only P (get_schemas be env c)"
  "P (KTables c s) \<Longrightarrow> calls_only P (get_tables be env c s)"
  "P (KTableData c s t n) \<Longrightarrow> calls_only P (get_table_data be env c s t n)"
  using calls_only_run_call [of P KCatalogs be env] calls_only_run_call [of P "KSchemas c" be env]
    calls_only_run_call [of P "KTables c s" be env]
    calls_only_run_call [of P "KTableData c s t n" be env]
  by simp_all

lemma calls_only_widgets [intro!]:
  "calls_only P (selectbox label opts i)" "calls_only P (checkbox label b)"
  "calls_only P (getitem df name)" "calls_only P (lookup_name name v)"
  by (auto simp: selectbox_def checkbox_def getitem_def lookup_name_def Let_def
      split: option.splits)

lemma calls_only_body: "calls_only default_limit (body be env u)"
  unfolding body_def step1_def step2_def step3_def step4_def metadata_def
    schemas_metadata_def tables_metadata_def footer_def
  by (intro calls_only_and_then calls_only_if_truthy calls_only_if calls_only_returns
      calls_only_emit calls_only_accessors calls_only_widgets calls_only_raises) simp_all

lemma calls_app: "calls default_limit w (snd (app be env u w))"
proof -
  have "calls_only default_limit
      (and_then (check_env env) (\<lambda>_. and_then header (\<lambda>_. body be env u)))"
    unfolding check_env_def header_def
    by (intro calls_only_and_then calls_only_if calls_only_returns calls_only_emit
        calls_only_raises calls_only_body)
  then have "calls default_limit (w\<lparr>screen := []\<rparr>) (snd (app be env u w))"
    unfolding calls_only_def app_def by blast
  with calls_screen [of default_limit w "[]"] show ?thesis
    by (rule calls_trans)
qed

lemma select_statement:
  assumes "take 6 (spec_statement k) = ''SELECT''"
  shows "\<exists>c s t n. k = KTableData c s t n"
  using assms by (cases k) simp_all

text \<open>
  C10. The statements a render pass has the warehouse execute are those of a list of
  accessor calls in which every call of \<^verbatim>\<open>get_table_data\<close> has the limit 10; so each
  statement of the pass that begins with \<^verbatim>\<open>SELECT\<close> is a preview statement ending in
  \<^verbatim>\<open>LIMIT 10\<close>, and the pass touches no cache entry of a preview with another limit.
\<close>

theorem preview_default_limit:
  "(\<exists>ks. executed (log (snd (app be env u w))) = executed (log w) @ map spec_statement ks \<and>
      (\<forall>c s t n. KTableData c s t n \<in> set ks \<longrightarrow> n = 10) \<and>
      (\<forall>q \<in> set (map spec_statement ks). take 6 q = ''SELECT'' \<longrightarrow>
         (\<exists>c s t. q = ''SELECT * FROM '' @ c @ ''.'' @ s @ ''.'' @ t @ '' LIMIT 10''))) \<and>
   (\<forall>c s t n. n \<noteq> 10 \<longrightarrow>
      cache (snd (app be env u w)) (KTableData c s t n) = cache w (KTableData c s t n))"
proof -
  from calls_app [of w be env u] obtain ks where
    ks: "executed (log (snd (app be env u w))) = executed (log w) @ map spec_statement ks"
    and all: "list_all default_limit ks"
    and ck: "\<forall>k. \<not> default_limit k \<longrightarrow> cache (snd (app be env u w)) k = cache w k"
    unfolding calls_def by blast
  have lim: "n = 10" if "KTableData c s t n \<in> set ks" for c s t n
    using all that by (auto simp: list_all_iff)
  have sel: "\<exists>c s t. q = ''SELECT * FROM '' @ c @ ''.'' @ s @ ''.'' @ t @ '' LIMIT 10''"
    if "q \<in> set (map spec_statement ks)" and "take 6 q = ''SELECT''" for q
  proof -
    from that(1) obtain k where k: "k \<in> set ks" "q = spec_statement k" by auto
    with that(2) obtain c s t n where "k = KTableData c s t n"
      using select_statement by blast
    with k lim [of c s t n] show ?thesis
      by (auto simp: str_int_def str_nat.simps digit_char_def)
  qed
  have "cache (snd (app be env u w)) (KTableData c s t n) = cache w (KTableData c s t n)"
    if "n \<noteq> 10" for c s t n
    using ck that by simp
  with ks lim sel show ?thesis by blast
qed

theorem preview_default_limit_witness:
  "executed (log (snd (app demo_be demo_env (pick 0 0 0 False False) start))) =
     [''SHOW CATALOGS'', ''SHOW SCHEMAS IN main'', ''SHOW TABLES IN main.default'',
      ''SELECT * FROM main.default.t1 LIMIT 10''] \<and>
   cache (snd (app demo_be demo_env (pick 0 0 0 False False) start))
       (KTableData ''main'' ''default'' ''t1'' 5) =
     cache start (KTableData ''main'' ''default'' ''t1'' 5) \<and>
   (\<exists>ks. executed (log (snd (app demo_be demo_env (pick 0 0 0 False False) start))) =
      executed (log start) @ map spec_statement ks \<and>
      (\<forall>c s t n. KTableData c s t n \<in> set ks \<longrightarrow> n = 10) \<and>
      (\<forall>q \<in> set (map spec_statement ks). take 6 q = ''SELECT'' \<longrightarrow>
         (\<exists>c s t. q = ''SELECT * FROM '' @ c @ ''.'' @ s @ ''.'' @ t @ '' LIMIT 10'')))"
proof -
  have ev: "executed (log (snd (app demo_be demo_env (pick 0 0 0 False False) start))) =
     [''SHOW CATALOGS'', ''SHOW SCHEMAS IN main'', ''SHOW TABLES IN main.default'',
      ''SELECT * FROM main.default.t1 LIMIT 10'']"
    by (simp add: script_defs demo_defs executed_def str_int_def str_nat.simps digit_char_def)
  note inst = preview_default_limit [of demo_be demo_env "pick 0 0 0 False False" start]
  have other: "cache (snd (app demo_be demo_env (pick 0 0 0 False False) start))
       (KTableData ''main'' ''default'' ''t1'' 5) =
     cache start (KTableData ''main'' ''default'' ''t1'' 5)"
    using inst [THEN conjunct2] by simp
  show ?thesis
    by (rule conjI [OF ev conjI [OF other inst [THEN conjunct1]]])
qed

subsection \<open>Pages keyed to their own selections\<close>

lemma summary_append [simp]:
  "boxes l (xs @ ys) = boxes l xs @ boxes l ys"
  "previews (xs @ ys) = previews xs @ previews ys"
  "col_frames n (xs @ ys) = col_frames n xs @ col_frames n ys"
  by (simp_all add: boxes_def previews_def col_frames_def)

lemma summary_Nil [simp]: "boxes l [] = []" "previews [] = []" "col_frames n [] = []"
  by (simp_all add: boxes_def previews_def col_frames_def)

lemma summary_one [simp]:
  "boxes l [Selectbox l' opts sel] = (if l' = l then [(opts, sel)] else [])"
  "boxes l [Checkbox lb b] = []" "boxes l [Divider] = []" "boxes l [Subheader s] = []"
  "boxes l [Dataframe df] = []" "boxes l [Columns k] = []" "boxes l [Col k el] = []"
  "boxes l [Markdown s] = []"
  "previews [Selectbox l' opts sel] = []" "previews [Checkbox lb b] = []"
  "previews [Divider] = []" "previews [Subheader s] = []" "previews [Dataframe df] = [df]"
  "previews [Columns k] = []" "previews [Col k el] = []" "previews [Markdown s] = []"
  "col_frames n [Selectbox l' opts sel] = []" "col_frames n [Checkbox lb b] = []"
  "col_frames n [Divider] = []" "col_frames n [Subheader s] = []"
  "col_frames n [Dataframe df] = []" "col_frames n [Columns k] = []"
  "col_frames n [Col k (Subheader s)] = []"
  "col_frames n [Col k (Dataframe df)] = (if k = n then [df] else [])"
  "col_frames n [Markdown s] = []"
  by (simp_all add: boxes_def previews_def col_frames_def)

lemma answers_listed:
  "answers be t0 key df \<Longrightarrow> map_of df col = Some opts \<Longrightarrow> listed be t0 key col opts"
  unfolding answers_def listed_def by force

lemma run_call_sound:
  assumes "cache_sound be w" and "run_call be env key w = (r, w')"
  shows "cache_sound be w' \<and> now w' = now w \<and> screen w' = screen w \<and>
         (\<forall>df. r = Inr df \<longrightarrow> answers be (now w) key df)"
proof -
  obtain q v where q: "sql_query be env (spec_statement key) w = (q, v)"
    by (cases "sql_query be env (spec_statement key) w")
  have v: "now v = now w" "cache v = cache w" "screen v = screen w"
    using sql_query_now [of be env "spec_statement key" w]
      sql_query_cache [of be env "spec_statement key" w]
      sql_query_screen [of be env "spec_statement key" w] q by simp_all
  have qa: "execute (be (now w)) (spec_statement key) = Inr df" if "q = Inr df" for df
    using q that
    by (auto simp: sql_query_def Let_def split: sum.splits option.splits)
  show ?thesis
  proof (cases "fresh key w")
    case True
    then obtain df expiry where e: "cache w key = Some (df, expiry)" "now w < expiry"
      by (auto simp: fresh_def split: option.splits)
    from True e assms(2) have rw: "r = Inr df" "w' = w"
      by (simp_all add: run_call_cached cache_data_hit)
    from assms(1) e(1) obtain t where
      t: "t \<le> now w" "expiry = t + 60" "execute (be t) (spec_statement key) = Inr df"
      unfolding cache_sound_def by blast
    from t e(2) have "t \<in> {now w - 59 .. now w}" by auto
    with t(3) have "answers be (now w) key df" unfolding answers_def by blast
    with rw assms(1) show ?thesis by simp
  next
    case False
    show ?thesis
    proof (cases q)
      case (Inl e)
      with False q assms(2) have rw: "r = Inl e" "w' = v"
        by (simp_all add: run_call_cached cache_data_miss)
      from assms(1) v have "cache_sound be v" unfolding cache_sound_def by simp
      with rw v show ?thesis by simp
    next
      case (Inr df)
      with False q assms(2) have rw:
        "r = Inr df" "w' = v\<lparr>cache := (cache v)(key \<mapsto> (df, now v + 60))\<rparr>"
        by (simp_all add: run_call_cached cache_data_miss)
      have ex: "execute (be (now w)) (spec_statement key) = Inr df"
        using qa Inr by simp
      have "cache_sound be w'"
        unfolding cache_sound_def
      proof (intro allI impI)
        fix k d x
        assume a: "cache w' k = Some (d, x)"
        show "\<exists>t\<le>now w'. x = t + 60 \<and> execute (be t) (spec_statement k) = Inr d"
        proof (cases "k = key")
          case True
          with a rw v have "d = df" "x = now w + 60" by simp_all
          with True ex rw v show ?thesis by auto
        next
          case False
          with a rw v have "cache w k = Some (d, x)" by simp
          with assms(1) rw v show ?thesis unfolding cache_sound_def by simp
        qed
      qed
      moreover have "answers be (now w) key df"
        unfolding answers_def using ex by auto
      ultimately show ?thesis
        using rw v by simp
    qed
  qed
qed

lemma cache_sound_screen [simp]: "cache_sound be (w\<lparr>screen := scr\<rparr>) = cache_sound be w"
  by (simp add: cache_sound_def)

lemma selectbox_result:
  "\<exists>v. chosen opts v \<and>
       selectbox label opts i w = (Inr v, w\<lparr>screen := screen w @ [Selectbox label opts v]\<rparr>)"
  by (auto simp: selectbox_def chosen_def Let_def and_then_def emit_def returns_def)

lemma step1_staged:
  assumes "cache_sound be w" and "bare (screen w)"
  shows "case step1 be env u w of
           (Inl e, w') \<Rightarrow> cache_sound be w' \<and> now w' = now w \<and> bare (screen w')
         | (Inr csel, w') \<Rightarrow> staged be (now w) csel unbound w'"
proof -
  obtain r w1 where a: "get_catalogs be env w = (r, w1)"
    by (cases "get_catalogs be env w")
  then have "run_call be env KCatalogs w = (r, w1)" by simp
  from run_call_sound [OF assms(1) this]
  have f: "cache_sound be w1" "now w1 = now w" "screen w1 = screen w"
    "\<And>df. r = Inr df \<Longrightarrow> answers be (now w) KCatalogs df"
    by simp_all
  show ?thesis
  proof (cases r)
    case (Inl e)
    with a f assms(2) show ?thesis by (simp add: step1_def and_then_def)
  next
    case (Inr df)
    show ?thesis
    proof (cases "map_of df ''catalog''")
      case None
      with Inr a f assms(2) show ?thesis
        by (simp add: step1_def and_then_def getitem_def raises_def)
    next
      case (Some opts)
      obtain v where v: "chosen opts v"
        "selectbox ''Select a Catalog'' opts (catalog_choice u) w1 =
           (Inr v, w1\<lparr>screen := screen w1 @ [Selectbox ''Select a Catalog'' opts v]\<rparr>)"
        using selectbox_result by blast
      have "listed be (now w) KCatalogs ''catalog'' opts"
        using f(4) [OF Inr] Some by (rule answers_listed)
      with Inr Some a f v assms(2) show ?thesis
        by (simp add: step1_def and_then_def getitem_def returns_def staged_def
            consistent_def bare_def unbound_def)
    qed
  qed
qed

lemma step2_staged:
  assumes "staged be t0 csel unbound w"
  shows "case step2 be env u csel unbound w of
           (Inl e, w') \<Rightarrow> staged be t0 csel unbound w'
         | (Inr sc, w') \<Rightarrow> staged be t0 csel sc w' \<and> selected_table sc = None"
proof (cases "truthy csel")
  case False
  then have "step2 be env u csel unbound w = (Inr unbound, w)"
    by (auto simp: step2_def if_truthy_def truthy_def returns_def split: option.splits)
  with assms show ?thesis by (simp add: unbound_def)
next
  case True
  then obtain c where c: "csel = Some c" "c \<noteq> []"
    by (auto simp: truthy_def split: option.splits)
  obtain r w1 where a: "get_schemas be env c w = (r, w1)"
    by (cases "get_schemas be env c w")
  then have "run_call be env (KSchemas c) w = (r, w1)" by simp
  from run_call_sound [OF _ this] assms
  have f: "cache_sound be w1" "now w1 = t0" "screen w1 = screen w"
    "\<And>df. r = Inr df \<Longrightarrow> answers be t0 (KSchemas c) df"
    by (simp_all add: staged_def)
  have st1: "staged be t0 csel unbound w1"
    using assms f by (simp add: staged_def)
  show ?thesis
  proof (cases r)
    case (Inl e)
    with a c st1 show ?thesis by (simp add: step2_def if_truthy_def and_then_def)
  next
    case (Inr df)
    show ?thesis
    proof (cases "map_of df ''databaseName''")
      case None
      with Inr a c st1 show ?thesis
        by (simp add: step2_def if_truthy_def and_then_def getitem_def raises_def)
    next
      case (Some opts)
      obtain v where v: "chosen opts v"
        "selectbox ''Select a Schema'' opts (schema_choice u) w1 =
           (Inr v, w1\<lparr>screen := screen w1 @ [Selectbox ''Select a Schema'' opts v]\<rparr>)"
        using selectbox_result by blast
      with Inr Some a c f(4) [OF Inr] st1 show ?thesis
        by (auto simp: step2_def if_truthy_def and_then_def getitem_def returns_def staged_def
            consistent_def unbound_def)
    qed
  qed
qed

lemma step3_staged:
  assumes "staged be t0 csel sc w" and "selected_table sc = None"
  shows "case step3 be env u csel sc w of
           (Inl e, w') \<Rightarrow> staged be t0 csel sc w'
         | (Inr sc', w') \<Rightarrow> staged be t0 csel sc' w'"
proof (cases "truthy csel")
  case False
  then have "step3 be env u csel sc w = (Inr sc, w)"
    by (auto simp: step3_def if_truthy_def truthy_def returns_def split: option.splits)
  with assms show ?thesis by simp
next
  case True
  then obtain c where c: "csel = Some c" "c \<noteq> []"
    by (auto simp: truthy_def split: option.splits)
  show ?thesis
  proof (cases "selected_schema sc")
    case None
    with c assms(1) show ?thesis
      by (simp add: step3_def if_truthy_def and_then_def lookup_name_def raises_def)
  next
    case (Some ss)
    show ?thesis
    proof (cases "truthy ss")
      case False
      with Some c have "step3 be env u csel sc w = (Inr sc, w)"
        by (auto simp: step3_def if_truthy_def truthy_def returns_def and_then_def
            lookup_name_def split: option.splits)
      with assms show ?thesis by simp
    next
      case True
      then obtain s where s: "ss = Some s" "s \<noteq> []"
        by (auto simp: truthy_def split: option.splits)
      obtain r w1 where a: "get_tables be env c s w = (r, w1)"
        by (cases "get_tables be env c s w")
      then have "run_call be env (KTables c s) w = (r, w1)" by simp
      from run_call_sound [OF _ this] assms(1)
      have f: "cache_sound be w1" "now w1 = t0" "screen w1 = screen w"
        "\<And>df. r = Inr df \<Longrightarrow> answers be t0 (KTables c s) df"
        by (simp_all add: staged_def)
      have st1: "staged be t0 csel sc w1"
        using assms(1) f by (simp add: staged_def)
      show ?thesis
      proof (cases r)
        case (Inl e)
        with a c s Some st1 show ?thesis
          by (simp add: step3_def if_truthy_def and_then_def lookup_name_def returns_def)
      next
        case (Inr df)
        show ?thesis
        proof (cases "map_of df ''tableName''")
          case None
          with Inr a c s Some st1 show ?thesis
            by (simp add: step3_def if_truthy_def and_then_def lookup_name_def returns_def
                getitem_def raises_def)
        next
          case (Some opts)
          obtain v where v: "chosen opts v"
            "selectbox ''Select a Table'' opts (table_choice u) w1 =
               (Inr v, w1\<lparr>screen := screen w1 @ [Selectbox ''Select a Table'' opts v]\<rparr>)"
            using selectbox_result by blast
          have res: "step3 be env u csel sc w =
              (Inr (sc\<lparr>tables := Some df, selected_table := Some v\<rparr>),
               w1\<lparr>screen := screen w1 @ [Selectbox ''Select a Table'' opts v]\<rparr>)"
            using Inr Some a c s \<open>selected_schema sc = Some ss\<close> v(2)
            by (simp add: step3_def if_truthy_def and_then_def lookup_name_def returns_def
                getitem_def)
          have "staged be t0 csel (sc\<lparr>tables := Some df, selected_table := Some v\<rparr>)
              (w1\<lparr>screen := screen w1 @ [Selectbox ''Select a Table'' opts v]\<rparr>)"
            using st1 assms(2) c s \<open>selected_schema sc = Some ss\<close> Some v(1) f(4) [OF Inr]
            by (auto simp: staged_def consistent_def)
          with res show ?thesis by simp
        qed
      qed
    qed
  qed
qed

lemma keeps_returns: "keeps S (returns x)"
  by (simp add: keeps_def returns_def)

lemma keeps_raises: "keeps S (raises e)"
  by (simp add: keeps_def raises_def)

lemma keeps_and_then:
  assumes "keeps S m" and "\<And>x. keeps S (f x)"
  shows "keeps S (and_then m f)"
  unfolding keeps_def
proof (intro allI impI)
  fix w
  assume "S w"
  obtain r v where mw: "m w = (r, v)" by (cases "m w")
  with assms(1) \<open>S w\<close> have "S v" unfolding keeps_def by (metis snd_conv)
  show "S (snd (and_then m f w))"
  proof (cases r)
    case (Inl e)
    with mw \<open>S v\<close> show ?thesis by (simp add: and_then_def)
  next
    case (Inr x)
    with mw \<open>S v\<close> assms(2) [of x] show ?thesis
      unfolding keeps_def by (simp add: and_then_def)
  qed
qed

lemma keeps_lookup:
  assumes "\<And>x. v = Some x \<Longrightarrow> keeps S (f x)"
  shows "keeps S (and_then (lookup_name name v) f)"
proof (cases v)
  case None
  then show ?thesis
    by (simp add: keeps_def and_then_def lookup_name_def raises_def)
next
  case (Some x)
  with assms [of x] show ?thesis
    by (simp add: keeps_def and_then_def lookup_name_def returns_def)
qed

lemma keeps_if_truthy:
  assumes "\<And>s. v = Some s \<Longrightarrow> s \<noteq> [] \<Longrightarrow> keeps S (yes s)" and "keeps S no"
  shows "keeps S (if_truthy v yes no)"
  using assms by (simp add: if_truthy_def split: option.splits)

lemma neutral_emit:
  assumes "boxes ''Select a Catalog'' [el] = []" and "boxes ''Select a Schema'' [el] = []"
    and "boxes ''Select a Table'' [el] = []" and "previews [el] = []"
    and "col_frames 1 [el] = []" and "col_frames 2 [el] = []"
  shows "keeps (staged be t0 csel sc) (emit el)"
  using assms
  by (auto simp: keeps_def emit_def staged_def consistent_def split: option.splits)

lemma keeps_checkbox:
  assumes "\<And>b. keeps (staged be t0 csel sc) (f b)"
  shows "keeps (staged be t0 csel sc) (and_then (checkbox label ticked) f)"
  unfolding checkbox_def
  by (intro keeps_and_then neutral_emit keeps_returns assms) simp_all

lemma keeps_preview:
  assumes "selected_schema sc = Some (Some s)" and "selected_table sc = Some (Some t)"
  shows "keeps (staged be t0 (Some c) sc)
           (and_then (get_table_data be env c s t 10) (\<lambda>data. emit (Dataframe data)))"
  unfolding keeps_def
proof (intro allI impI)
  fix w
  assume st: "staged be t0 (Some c) sc w"
  obtain r w1 where a: "get_table_data be env c s t 10 w = (r, w1)"
    by (cases "get_table_data be env c s t 10 w")
  then have "run_call be env (KTableData c s t 10) w = (r, w1)" by simp
  from run_call_sound [OF _ this] st
  have f: "cache_sound be w1" "now w1 = t0" "screen w1 = screen w"
    "\<And>df. r = Inr df \<Longrightarrow> answers be t0 (KTableData c s t 10) df"
    by (simp_all add: staged_def)
  have st1: "staged be t0 (Some c) sc w1"
    using st f by (simp add: staged_def)
  show "staged be t0 (Some c) sc
      (snd (and_then (get_table_data be env c s t 10) (\<lambda>data. emit (Dataframe data)) w))"
  proof (cases r)
    case (Inl e)
    with a st1 show ?thesis by (simp add: and_then_def)
  next
    case (Inr df)
    with a st1 f(4) [OF Inr] assms show ?thesis
      by (simp add: and_then_def emit_def staged_def consistent_def)
  qed
qed

lemma step4_staged: "keeps (staged be t0 csel sc) (step4 be env csel sc)"
proof -
  let ?S = "staged be t0 csel sc"
  let ?show = "\<lambda>c s t.
      and_then (emit (Subheader (''Data Preview: `'' @ c @ ''.'' @ s @ ''.'' @ t @ ''`'')))
        (\<lambda>_. and_then (get_table_data be env c s t 10) (\<lambda>data. emit (Dataframe data)))"
  have l4: "keeps ?S (?show c s t)"
    if "csel = Some c" "selected_schema sc = Some (Some s)" "selected_table sc = Some (Some t)"
    for c s t
  proof (rule keeps_and_then)
    show "keeps ?S (emit (Subheader (''Data Preview: `'' @ c @ ''.'' @ s @ ''.'' @ t @ ''`'')))"
      by (rule neutral_emit) simp_all
    show "keeps ?S (and_then (get_table_data be env c s t 10) (\<lambda>data. emit (Dataframe data)))"
      using keeps_preview [OF that(2,3), of be t0 c env] that(1) by simp
  qed
  have l3: "keeps ?S (and_then (lookup_name ''selected_table'' (selected_table sc))
      (\<lambda>st. if_truthy st (\<lambda>table. ?show c s table) (returns ())))"
    if "csel = Some c" "selected_schema sc = Some (Some s)" for c s
  proof (rule keeps_lookup)
    fix st
    assume st: "selected_table sc = Some st"
    show "keeps ?S (if_truthy st (\<lambda>table. ?show c s table) (returns ()))"
    proof (rule keeps_if_truthy)
      fix t
      assume "st = Some t"
      with st have "selected_table sc = Some (Some t)" by simp
      with that show "keeps ?S (?show c s t)" by (rule l4)
    qed (rule keeps_returns)
  qed
  have l2: "keeps ?S (and_then (lookup_name ''selected_schema'' (selected_schema sc))
      (\<lambda>ss. if_truthy ss
         (\<lambda>schema. and_then (lookup_name ''selected_table'' (selected_table sc))
            (\<lambda>st. if_truthy st (\<lambda>table. ?show c schema table) (returns ())))
         (returns ())))"
    if "csel = Some c" for c
  proof (rule keeps_lookup)
    fix ss
    assume ss: "selected_schema sc = Some ss"
    show "keeps ?S (if_truthy ss
         (\<lambda>schema. and_then (lookup_name ''selected_table'' (selected_table sc))
            (\<lambda>st. if_truthy st (\<lambda>table. ?show c schema table) (returns ())))
         (returns ()))"
    proof (rule keeps_if_truthy)
      fix s
      assume "ss = Some s"
      with ss have "selected_schema sc = Some (Some s)" by simp
      with that show "keeps ?S (and_then (lookup_name ''selected_table'' (selected_table sc))
            (\<lambda>st. if_truthy st (\<lambda>table. ?show c s table) (returns ())))"
        by (rule l3)
    qed (rule keeps_returns)
  qed
  show ?thesis
    unfolding step4_def
  proof (rule keeps_and_then)
    show "keeps ?S (emit Divider)"
      by (rule neutral_emit) simp_all
  next
    fix x :: unit
    show "keeps ?S (if_truthy csel
        (\<lambda>catalog. and_then (lookup_name ''selected_schema'' (selected_schema sc))
           (\<lambda>ss. if_truthy ss
              (\<lambda>schema. and_then (lookup_name ''selected_table'' (selected_table sc))
                 (\<lambda>st. if_truthy st (\<lambda>table. ?show catalog schema table) (returns ())))
              (returns ())))
        (returns ()))"
    proof (rule keeps_if_truthy)
      fix c
      assume "csel = Some c"
      then show "keeps ?S (and_then (lookup_name ''selected_schema'' (selected_schema sc))
           (\<lambda>ss. if_truthy ss
              (\<lambda>schema. and_then (lookup_name ''selected_table'' (selected_table sc))
                 (\<lambda>st. if_truthy st (\<lambda>table. ?show c schema table) (returns ())))
              (returns ())))"
        by (rule l2)
    qed (rule keeps_returns)
  qed
qed

lemma schemas_metadata_staged:
  "keeps (staged be t0 csel sc) (schemas_metadata u csel sc)"
  unfolding schemas_metadata_def
proof (rule keeps_checkbox)
  fix b
  have col: "keeps (staged be t0 csel sc) (emit (Col 1 (Dataframe df)))"
    if "schemas sc = Some df" for df
    using that
    by (auto simp: keeps_def emit_def staged_def consistent_def split: option.splits)
  have "keeps (staged be t0 csel sc)
      (and_then (emit (Col 1 (Subheader (''Schemas in `'' @ fmt csel @ ''`''))))
         (\<lambda>_. and_then (lookup_name ''schemas'' (schemas sc))
                 (\<lambda>df. emit (Col 1 (Dataframe df)))))"
  proof (rule keeps_and_then)
    show "keeps (staged be t0 csel sc)
        (emit (Col 1 (Subheader (''Schemas in `'' @ fmt csel @ ''`''))))"
      by (rule neutral_emit) simp_all
    show "keeps (staged be t0 csel sc)
        (and_then (lookup_name ''schemas'' (schemas sc)) (\<lambda>df. emit (Col 1 (Dataframe df))))"
      by (rule keeps_lookup) (rule col)
  qed
  then show "keeps (staged be t0 csel sc)
      (if b then and_then (emit (Col 1 (Subheader (''Schemas in `'' @ fmt csel @ ''`''))))
                 (\<lambda>_. and_then (lookup_name ''schemas'' (schemas sc))
                         (\<lambda>df. emit (Col 1 (Dataframe df))))
       else returns ())"
    by (simp add: keeps_returns)
qed

lemma tables_metadata_staged:
  "keeps (staged be t0 csel sc) (tables_metadata u csel sc)"
  unfolding tables_metadata_def
proof (rule keeps_checkbox)
  fix b
  have col: "keeps (staged be t0 csel sc) (emit (Col 2 (Dataframe df)))"
    if "tables sc = Some df" for df
    using that
    by (auto simp: keeps_def emit_def staged_def consistent_def split: option.splits)
  have "keeps (staged be t0 csel sc)
      (and_then (lookup_name ''selected_schema'' (selected_schema sc))
         (\<lambda>ss. and_then (emit (Col 2 (Subheader
                  (''Tables in `'' @ fmt csel @ ''.'' @ fmt ss @ ''`''))))
         (\<lambda>_. and_then (lookup_name ''tables'' (tables sc))
                 (\<lambda>df. emit (Col 2 (Dataframe df))))))"
  proof (rule keeps_lookup)
    fix ss
    show "keeps (staged be t0 csel sc)
        (and_then (emit (Col 2 (Subheader
                  (''Tables in `'' @ fmt csel @ ''.'' @ fmt ss @ ''`''))))
         (\<lambda>_. and_then (lookup_name ''tables'' (tables sc))
                 (\<lambda>df. emit (Col 2 (Dataframe df)))))"
    proof (rule keeps_and_then)
      show "keeps (staged be t0 csel sc)
          (emit (Col 2 (Subheader (''Tables in `'' @ fmt csel @ ''.'' @ fmt ss @ ''`''))))"
        by (rule neutral_emit) simp_all
      show "keeps (staged be t0 csel sc)
          (and_then (lookup_name ''tables'' (tables sc)) (\<lambda>df. emit (Col 2 (Dataframe df))))"
        by (rule keeps_lookup) (rule col)
    qed
  qed
  then show "keeps (staged be t0 csel sc)
      (if b then and_then (lookup_name ''selected_schema'' (selected_schema sc))
                 (\<lambda>ss. and_then (emit (Col 2 (Subheader
                          (''Tables in `'' @ fmt csel @ ''.'' @ fmt ss @ ''`''))))
                 (\<lambda>_. and_then (lookup_name ''tables'' (tables sc))
                         (\<lambda>df. emit (Col 2 (Dataframe df)))))
       else returns ())"
    by (simp add: keeps_returns)
qed

lemma rest_staged:
  "keeps (staged be t0 csel sc)
     (and_then (step4 be env csel sc) (\<lambda>_. and_then (metadata u csel sc) (\<lambda>_. footer)))"
  unfolding metadata_def footer_def
  by (intro keeps_and_then step4_staged schemas_metadata_staged tables_metadata_staged
      neutral_emit) simp_all

lemma consistent_keyed:
  assumes "consistent be t0 csel sc scr"
  shows "keyed be t0 scr"
proof -
  from assms obtain copts where
    cat: "boxes ''Select a Catalog'' scr = [(copts, csel)]"
      "listed be t0 KCatalogs ''catalog'' copts" "chosen copts csel"
    unfolding consistent_def by blast
  have sch: "\<exists>c. csel = Some c \<and> listed be t0 (KSchemas c) ''databaseName'' opts \<and> chosen opts sel"
    if "(opts, sel) \<in> set (boxes ''Select a Schema'' scr)" for opts sel
    using assms that unfolding consistent_def
    by (auto split: option.splits intro: answers_listed)
  have sch1: "length (boxes ''Select a Schema'' scr) \<le> 1"
    using assms unfolding consistent_def by (auto split: option.splits)
  have tab: "\<exists>c s. csel = Some c \<and> map snd (boxes ''Select a Schema'' scr) = [Some s] \<and>
        listed be t0 (KTables c s) ''tableName'' opts \<and> chosen opts sel"
    if "(opts, sel) \<in> set (boxes ''Select a Table'' scr)" for opts sel
    using assms that unfolding consistent_def
    by (auto split: option.splits intro: answers_listed)
  have tab1: "length (boxes ''Select a Table'' scr) \<le> 1"
    using assms unfolding consistent_def by (auto split: option.splits)
  have pre: "\<exists>c s t. csel = Some c \<and> map snd (boxes ''Select a Schema'' scr) = [Some s] \<and>
        map snd (boxes ''Select a Table'' scr) = [Some t] \<and>
        answers be t0 (KTableData c s t 10) df"
    if "df \<in> set (previews scr)" for df
    using assms that unfolding consistent_def
    by (fastforce split: option.splits)
  have c1: "\<exists>c. csel = Some c \<and> answers be t0 (KSchemas c) df"
    if "df \<in> set (col_frames 1 scr)" for df
    using assms that unfolding consistent_def
    by (fastforce split: option.splits)
  have c2: "\<exists>c s. csel = Some c \<and> map snd (boxes ''Select a Schema'' scr) = [Some s] \<and>
        answers be t0 (KTables c s) df"
    if "df \<in> set (col_frames 2 scr)" for df
    using assms that unfolding consistent_def
    by (fastforce split: option.splits)
  show ?thesis
    unfolding keyed_def Let_def
    using cat sch sch1 tab tab1 pre c1 c2 by (simp add: case_prod_beta)
qed

lemma bare_keyed: "bare scr \<Longrightarrow> keyed be t0 scr"
  by (simp add: bare_def keyed_def)

text \<open>The states a pass can end in: nothing selectable shown yet, or a staged page.\<close>

lemma body_ends:
  assumes "cache_sound be w" and "bare (screen w)"
  shows "cache_sound be (snd (body be env u w)) \<and> now (snd (body be env u w)) = now w \<and>
         keyed be (now w) (screen (snd (body be env u w)))"
proof -
  let ?rest = "\<lambda>csel sc. and_then (step4 be env csel sc)
      (\<lambda>_. and_then (metadata u csel sc) (\<lambda>_. footer))"
  have fin: "cache_sound be v \<and> now v = now w \<and> keyed be (now w) (screen v)"
    if "staged be (now w) csel sc v" for csel sc v
    using that consistent_keyed unfolding staged_def by blast
  obtain r1 w1 where s1: "step1 be env u w = (r1, w1)" by (cases "step1 be env u w")
  show ?thesis
  proof (cases r1)
    case (Inl e)
    with s1 step1_staged [OF assms, of env u] show ?thesis
      by (simp add: body_def and_then_def bare_keyed)
  next
    case (Inr csel)
    with s1 step1_staged [OF assms, of env u] have st1: "staged be (now w) csel unbound w1"
      by simp
    obtain r2 w2 where s2: "step2 be env u csel unbound w1 = (r2, w2)"
      by (cases "step2 be env u csel unbound w1")
    show ?thesis
    proof (cases r2)
      case (Inl e)
      with s2 step2_staged [OF st1, of env u] have "staged be (now w) csel unbound w2" by simp
      with s1 s2 Inr Inl show ?thesis
        using fin by (simp add: body_def and_then_def)
    next
      case sc2: (Inr sc2)
      with s2 step2_staged [OF st1, of env u]
      have st2: "staged be (now w) csel sc2 w2" "selected_table sc2 = None" by simp_all
      obtain r3 w3 where s3: "step3 be env u csel sc2 w2 = (r3, w3)"
        by (cases "step3 be env u csel sc2 w2")
      show ?thesis
      proof (cases r3)
        case (Inl e)
        with s3 step3_staged [OF st2, of env u] have "staged be (now w) csel sc2 w3" by simp
        with s1 s2 s3 Inr sc2 Inl show ?thesis
          using fin by (simp add: body_def and_then_def)
      next
        case sc3: (Inr sc3)
        with s3 step3_staged [OF st2, of env u] have "staged be (now w) csel sc3 w3" by simp
        with rest_staged [of be "now w" csel sc3 env u]
        have "staged be (now w) csel sc3 (snd (?rest csel sc3 w3))"
          unfolding keeps_def by blast
        moreover have "body be env u w = ?rest csel sc3 w3"
          using s1 s2 s3 Inr sc2 sc3 by (simp add: body_def and_then_def)
        ultimately show ?thesis
          using fin by simp
      qed
    qed
  qed
qed

lemma header_bare: "header (w\<lparr>screen := []\<rparr>) = (Inr (), v) \<Longrightarrow>
    bare (screen v) \<and> cache v = cache w \<and> now v = now w"
  by (auto simp: header_def and_then_def emit_def bare_def boxes_def previews_def col_frames_def)

lemma app_ends:
  assumes "cache_sound be w"
  shows "cache_sound be (snd (app be env u w)) \<and> now (snd (app be env u w)) = now w \<and>
         keyed be (now w) (screen (snd (app be env u w)))"
proof (cases "truthy (env ''DATABRICKS_WAREHOUSE_ID'')")
  case False
  then have "app be env u w =
      (Inl (AssertionError ''DATABRICKS_WAREHOUSE_ID must be set in app.yaml.''),
       w\<lparr>screen := []\<rparr>)"
    by (simp add: app_def check_env_def and_then_def raises_def)
  with assms show ?thesis
    by (simp add: bare_keyed bare_def)
next
  case True
  obtain v where h: "header (w\<lparr>screen := []\<rparr>) = (Inr (), v)"
    by (simp add: header_def and_then_def emit_def)
  from header_bare [OF h] have v: "bare (screen v)" "cache v = cache w" "now v = now w"
    by simp_all
  from assms v have "cache_sound be v" unfolding cache_sound_def by simp
  from body_ends [OF this v(1), of env u] v(3)
  have "cache_sound be (snd (body be env u v)) \<and> now (snd (body be env u v)) = now w \<and>
         keyed be (now w) (screen (snd (body be env u v)))"
    by simp
  moreover have "app be env u w = body be env u v"
    using True h by (simp add: app_def check_env_def and_then_def returns_def)
  ultimately show ?thesis by simp
qed

lemma advance_sound: "cache_sound be w \<Longrightarrow> cache_sound be (advance d w)"
  unfolding cache_sound_def advance_def by fastforce

text \<open>
  C1. Two passes, the second one after any time and with any widget inputs, so also
  with another catalog selected and the schema and table positions of the first pass:
  the page of the second pass is keyed to its own selections. Its schema list is the
  warehouse's list for the catalog selected on this page, its table list the one for
  this page's catalog and schema, each selection is an element of the list shown with
  it, and the preview and the metadata frames are the warehouse's answers, within the
  freshness window, for this page's selections.
\<close>

theorem child_lists_follow_catalog:
  assumes "cache_sound be w"
  shows "keyed be (now w + d)
           (screen (snd (app be env u2 (advance d (snd (app be env u1 w))))))"
proof -
  let ?w1 = "snd (app be env u1 w)"
  from app_ends [OF assms, of env u1] have "cache_sound be ?w1" "now ?w1 = now w"
    by simp_all
  then have "cache_sound be (advance d ?w1)" "now (advance d ?w1) = now w + d"
    by (simp_all add: advance_sound) (simp add: advance_def)
  with app_ends [of be "advance d ?w1" env u2] show ?thesis by simp
qed

lemma start_sound: "cache_sound be start"
  by (simp add: cache_sound_def)

text \<open>
  On the small warehouse: the first pass selects the catalog \<^verbatim>\<open>main\<close> and its third
  schema, \<^verbatim>\<open>hr\<close>; five seconds later the second pass selects the catalog \<^verbatim>\<open>dev\<close>, the
  schema position still the third. The page of the second pass lists the one schema of
  \<^verbatim>\<open>dev\<close> and selects it.
\<close>

theorem child_lists_follow_catalog_witness:
  "cache_sound demo_be start \<and>
   boxes ''Select a Schema''
       (screen (snd (app demo_be demo_env (pick 0 2 0 True True) start))) =
     [([''default'', ''sales'', ''hr''], Some ''hr'')] \<and>
   screen (snd (app demo_be demo_env (pick 1 2 0 True True)
          (advance 5 (snd (app demo_be demo_env (pick 0 2 0 True True) start))))) =
     [Markdown ''<style>'', Title ''**Databricks Metadata Explorer**'',
      Caption ''Browse catalogs, schemas, and tables interactively with Databricks SQL.'',
      SidebarHeader ''Navigation Panel'',
      SidebarMarkdown ''Use the selectors below to explore the metadata.'',
      Selectbox ''Select a Catalog'' [''main'', ''dev'', ''empty'', ''my-cat''] (Some ''dev''),
      Selectbox ''Select a Schema'' [''staging''] (Some ''staging''),
      Selectbox ''Select a Table'' [''events''] (Some ''events''),
      Divider,
      Subheader ''Data Preview: `dev.staging.events`'',
      Dataframe [(''x'', [''7''])],
      Columns 2,
      Checkbox ''Show Schemas Metadata'' True,
      Col 1 (Subheader ''Schemas in `dev`''),
      Col 1 (Dataframe [(''databaseName'', [''staging''])]),
      Checkbox ''Show Tables Metadata'' True,
      Col 2 (Subheader ''Tables in `dev.staging`''),
      Col 2 (Dataframe [(''database'', [''staging'']), (''tableName'', [''events'']),
                        (''isTemporary'', [''False''])]),
      Divider, Markdown ''<footer>''] \<and>
   keyed demo_be (now start + 5)
     (screen (snd (app demo_be demo_env (pick 1 2 0 True True)
        (advance 5 (snd (app demo_be demo_env (pick 0 2 0 True True) start))))))"
proof -
  let ?w1 = "snd (app demo_be demo_env (pick 0 2 0 True True) start)"
  let ?w2 = "snd (app demo_be demo_env (pick 1 2 0 True True) (advance 5 ?w1))"
  have p1: "boxes ''Select a Schema'' (screen ?w1) = [([''default'', ''sales'', ''hr''], Some ''hr'')]"
    by (simp add: script_defs demo_defs boxes_def str_int_def str_nat.simps digit_char_def)
  have p2: "screen ?w2 =
     [Markdown ''<style>'', Title ''**Databricks Metadata Explorer**'',
      Caption ''Browse catalogs, schemas, and tables interactively with Databricks SQL.'',
      SidebarHeader ''Navigation Panel'',
      SidebarMarkdown ''Use the selectors below to explore the metadata.'',
      Selectbox ''Select a Catalog'' [''main'', ''dev'', ''empty'', ''my-cat''] (Some ''dev''),
      Selectbox ''Select a Schema'' [''staging''] (Some ''staging''),
      Selectbox ''Select a Table'' [''events''] (Some ''events''),
      Divider,
      Subheader ''Data Preview: `dev.staging.events`'',
      Dataframe [(''x'', [''7''])],
      Columns 2,
      Checkbox ''Show Schemas Metadata'' True,
      Col 1 (Subheader ''Schemas in `dev`''),
      Col 1 (Dataframe [(''databaseName'', [''staging''])]),
      Checkbox ''Show Tables Metadata'' True,
      Col 2 (Subheader ''Tables in `dev.staging`''),
      Col 2 (Dataframe [(''database'', [''staging'']), (''tableName'', [''events'']),
                        (''isTemporary'', [''False''])]),
      Divider, Markdown ''<footer>'']"
    by (simp add: script_defs demo_defs advance_def str_int_def str_nat.simps digit_char_def)
  have k: "keyed demo_be (now start + 5) (screen ?w2)"
    using start_sound by (rule child_lists_follow_catalog)
  show ?thesis
    by (rule conjI [OF start_sound conjI [OF p1 conjI [OF p2 k]]])
qed

text \<open>A page that shows the schemas of \<^verbatim>\<open>main\<close> under the catalog \<^verbatim>\<open>dev\<close> is not keyed.\<close>

lemma stale_page_not_keyed:
  "\<not> keyed demo_be 5
      [Selectbox ''Select a Catalog'' [''main'', ''dev'', ''empty'', ''my-cat''] (Some ''dev''),
       Selectbox ''Select a Schema'' [''default'', ''sales'', ''hr''] (Some ''hr'')]"
  by (simp add: keyed_def boxes_def listed_def demo_defs)

subsection \<open>The size of a preview\<close>

lemma digit_of_digit_char: "digit_of (digit_char n) = Some (n mod 10)"
proof -
  have "n mod 10 = 0 \<or> n mod 10 = 1 \<or> n mod 10 = 2 \<or> n mod 10 = 3 \<or> n mod 10 = 4 \<or>
      n mod 10 = 5 \<or> n mod 10 = 6 \<or> n mod 10 = 7 \<or> n mod 10 = 8 \<or> n mod 10 = 9"
    by arith
  then show ?thesis
    by (auto simp: digit_of_def digit_char_def upt_conv_Cons)
qed

lemma digits_value_append:
  "digits_value acc (xs @ ys) =
     (case digits_value acc xs of None \<Rightarrow> None | Some v \<Rightarrow> digits_value v ys)"
  by (induction xs arbitrary: acc) (auto split: option.splits)

lemma digits_value_str_nat: "digits_value 0 (str_nat n) = Some n"
proof (induction n rule: str_nat.induct)
  case (1 n)
  show ?case
  proof (cases "n < 10")
    case True
    then show ?thesis
      by (subst str_nat.simps) (simp add: digit_of_digit_char)
  next
    case False
    with 1 have "digits_value 0 (str_nat (n div 10)) = Some (n div 10)" by simp
    with False show ?thesis
      by (subst str_nat.simps) (simp add: digits_value_append digit_of_digit_char)
  qed
qed

lemma str_nat_not_Nil: "str_nat n \<noteq> []"
  by (subst str_nat.simps) simp

lemma digit_char_cases:
  "digit_char n \<in> set ''0123456789''"
proof -
  have "n mod 10 = 0 \<or> n mod 10 = 1 \<or> n mod 10 = 2 \<or> n mod 10 = 3 \<or> n mod 10 = 4 \<or>
      n mod 10 = 5 \<or> n mod 10 = 6 \<or> n mod 10 = 7 \<or> n mod 10 = 8 \<or> n mod 10 = 9"
    by arith
  then show ?thesis by (auto simp: digit_char_def)
qed

lemma str_nat_digits: "set (str_nat n) \<subseteq> set ''0123456789''"
proof (induction n rule: str_nat.induct)
  case (1 n)
  show ?case
  proof (cases "n < 10")
    case True
    then show ?thesis
      using digit_char_cases [of n] by (subst str_nat.simps) simp
  next
    case False
    with 1 have "set (str_nat (n div 10)) \<subseteq> set ''0123456789''" by simp
    with False show ?thesis
      using digit_char_cases [of n] by (subst str_nat.simps) simp
  qed
qed

lemma parse_nat_str_nat: "parse_nat (str_nat n) = Some n"
  by (simp add: parse_nat_def str_nat_not_Nil digits_value_str_nat)

lemma parse_int_str_int: "parse_int (str_int i) = Some i"
proof (cases "i < 0")
  case True
  then show ?thesis
    by (simp add: str_int_def parse_int_def parse_nat_str_nat)
next
  case False
  obtain c cs where s: "str_nat (nat i) = c # cs"
    using str_nat_not_Nil [of "nat i"] by (cases "str_nat (nat i)") auto
  have "c \<in> set ''0123456789''"
    using str_nat_digits [of "nat i"] s by auto
  then have "c \<noteq> CHR ''-''" by auto
  with False s parse_nat_str_nat [of "nat i"] show ?thesis
    by (simp add: str_int_def parse_int_def)
qed

lemma parse_select_statement:
  assumes "list_all path_char p"
  shows "parse_select (''SELECT * FROM '' @ p @ '' LIMIT '' @ str_int n) = Some (p, n)"
proof -
  have sp: "\<not> path_char CHR '' ''"
    by (simp add: path_char_def ident_char_def)
  have tw: "takeWhile path_char (p @ CHR '' '' # xs) = p" for xs
    using assms sp by (simp add: takeWhile_append2 list_all_iff)
  have dw: "dropWhile path_char (p @ CHR '' '' # xs) = CHR '' '' # xs" for xs
    using assms sp by (simp add: dropWhile_append2 list_all_iff)
  show ?thesis
    by (simp add: parse_select_def Let_def tw dw parse_int_str_int)
qed

lemma plain_path:
  assumes "plain c" and "plain s" and "plain t"
  shows "list_all path_char (c @ ''.'' @ s @ ''.'' @ t)"
  using assms by (auto simp: plain_def path_char_def list_all_iff)

text \<open>
  C9. Let the warehouse honour the preview statement, and let the cache hold only what
  the warehouse returned. For a catalog, a schema and a table named with letters, digits
  and underscores, and for every limit \<open>n\<close>, a frame that \<^verbatim>\<open>get_table_data\<close> returns has
  at most \<open>n\<close> rows and only columns of that table. The code adds nothing and removes
  nothing: the bound is the warehouse's, for the statement with this \<open>n\<close>.
\<close>

theorem preview_bounded:
  assumes "honours_select be cols" and "cache_sound be w"
    and "plain c" and "plain s" and "plain t"
    and "get_table_data be env c s t n w = (Inr df, w')"
  shows "int (nrows df) \<le> n \<and>
         (\<exists>cs. cols (c @ ''.'' @ s @ ''.'' @ t) = Some cs \<and> set (column_names df) \<subseteq> set cs)"
proof -
  let ?stmt = "spec_statement (KTableData c s t n)"
  from assms(6) have "run_call be env (KTableData c s t n) w = (Inr df, w')" by simp
  from run_call_sound [OF assms(2) this] have "answers be (now w) (KTableData c s t n) df"
    by simp
  then obtain t0 where ex: "execute (be t0) ?stmt = Inr df"
    unfolding answers_def by blast
  have "parse_select ?stmt = Some (c @ ''.'' @ s @ ''.'' @ t, n)"
    using parse_select_statement [OF plain_path [OF assms(3-5)], of n] by simp
  with assms(1) ex show ?thesis
    unfolding honours_select_def by (fastforce split: option.splits)
qed

lemma demo_honours_select: "honours_select demo_be demo_cols"
  unfolding honours_select_def
proof (intro allI impI)
  fix t stmt df
  assume "execute (demo_be t) stmt = Inr df"
  then have "map_of demo_frames stmt = Some df"
    by (simp add: demo_be_def demo_wh_def split: option.splits)
  then have "(stmt, df) \<in> set demo_frames" by (rule map_of_SomeD)
  then show "case parse_select stmt of
       None \<Rightarrow> True
     | Some (name, n) \<Rightarrow>
         int (nrows df) \<le> n \<and>
         (case demo_cols name of None \<Rightarrow> False | Some cs \<Rightarrow> set (column_names df) \<subseteq> set cs)"
    unfolding demo_frames_def
    by (auto simp: parse_select_def path_char_def ident_char_def parse_int_def parse_nat_def
        digit_of_def demo_cols_def nrows_def column_names_def Let_def upt_conv_Cons)
qed

theorem preview_bounded_witness:
  "honours_select demo_be demo_cols \<and> cache_sound demo_be start \<and>
   plain ''main'' \<and> plain ''default'' \<and> plain ''t1'' \<and>
   fst (get_table_data demo_be demo_env ''main'' ''default'' ''t1'' 5 start) =
     Inr [(''id'', [''1'', ''2'', ''3'']), (''name'', [''a'', ''b'', ''c''])] \<and>
   int (nrows [(''id'', [''1'', ''2'', ''3'']), (''name'', [''a'', ''b'', ''c''])]) \<le> 5 \<and>
   (\<exists>cs. demo_cols (''main'' @ ''.'' @ ''default'' @ ''.'' @ ''t1'') = Some cs \<and>
      set (column_names [(''id'', [''1'', ''2'', ''3'']), (''name'', [''a'', ''b'', ''c''])])
        \<subseteq> set cs)"
proof -
  let ?df = "[(''id'', [''1'', ''2'', ''3'']), (''name'', [''a'', ''b'', ''c''])]"
  define w' where "w' = snd (get_table_data demo_be demo_env ''main'' ''default'' ''t1'' 5 start)"
  have pl: "plain ''main''" "plain ''default''" "plain ''t1''"
    by (simp_all add: plain_def ident_char_def)
  have r: "fst (get_table_data demo_be demo_env ''main'' ''default'' ''t1'' 5 start) = Inr ?df"
    by (simp add: script_defs demo_defs str_int_def str_nat.simps digit_char_def)
  then have "get_table_data demo_be demo_env ''main'' ''default'' ''t1'' 5 start = (Inr ?df, w')"
    unfolding w'_def by (metis prod.collapse)
  from preview_bounded [OF demo_honours_select start_sound pl this]
  show ?thesis
    using demo_honours_select start_sound pl r by simp
qed

end
